theory Spec2Isabelle
  imports Complex_Main "HOL-Library.AList"
begin

section \<open>Python values\<close>

text \<open>
  A Python \<open>str\<close> is a sequence of Unicode code points, and \<open>len\<close> and slicing count
  code points. A string is therefore a list of code points (natural numbers), not a list
  of bytes. \<open>str\<close> embeds an ASCII literal.
\<close>

type_synonym pystr = "nat list"

definition str :: "string \<Rightarrow> pystr" where
  "str s = map of_char s"

text \<open>
  The objects that \<open>json.loads\<close> and \<open>request.get_json\<close> produce: \<open>None\<close>, \<open>bool\<close>,
  \<open>int\<close>, \<open>float\<close> (finite ones), \<open>str\<close>, \<open>list\<close> and \<open>dict\<close>. A dict is an association
  list in insertion order; a lookup reads the first binding of a key, and a dict built by
  the code below has distinct keys.
\<close>

datatype pyval =
    PNone
  | PBool bool
  | PInt int
  | PFloat real
  | PStr pystr
  | PList "pyval list"
  | PDict "(pystr \<times> pyval) list"

text \<open>
  Exceptions (subclasses of \<open>Exception\<close>). Those raised by a library or by the code carry
  their text \<open>str(e)\<close>; those raised by the interpreter carry none here, their wording
  being the interpreter's. \<open>UnicodeEncodeError\<close> is what writing a text to a stream raises
  when the stream's encoding has no form for a character of the text. \<open>OtherError\<close> is any
  other exception of a library.
\<close>

datatype exn =
    JSONDecodeError pystr
  | ValueError pystr
  | UnicodeEncodeError pystr
  | Exception pystr
  | OtherError pystr
  | AttributeError
  | TypeError
  | KeyError
  | IndexError

text \<open>
  \<open>except ValueError\<close> also catches \<open>json.JSONDecodeError\<close> and \<open>UnicodeEncodeError\<close>,
  subclasses of it.
\<close>

fun is_ValueError :: "exn \<Rightarrow> bool" where
  "is_ValueError (ValueError m) = True"
| "is_ValueError (JSONDecodeError m) = True"
| "is_ValueError (UnicodeEncodeError m) = True"
| "is_ValueError e = False"

fun is_JSONDecodeError :: "exn \<Rightarrow> bool" where
  "is_JSONDecodeError (JSONDecodeError m) = True"
| "is_JSONDecodeError e = False"

text \<open>Truth value of an object, as \<open>if x:\<close> and \<open>not x\<close> read it.\<close>

fun truthy :: "pyval \<Rightarrow> bool" where
  "truthy PNone = False"
| "truthy (PBool b) = b"
| "truthy (PInt n) = (n \<noteq> 0)"
| "truthy (PFloat x) = (x \<noteq> 0)"
| "truthy (PStr s) = (s \<noteq> [])"
| "truthy (PList l) = (l \<noteq> [])"
| "truthy (PDict kvs) = (kvs \<noteq> [])"

text \<open>\<open>obj.get(k, d)\<close>: only a dict has the method.\<close>

fun py_get :: "pyval \<Rightarrow> pystr \<Rightarrow> pyval \<Rightarrow> exn + pyval" where
  "py_get (PDict kvs) k d = Inr (case map_of kvs k of None \<Rightarrow> d | Some v \<Rightarrow> v)"
| "py_get obj k d = Inl AttributeError"

text \<open>
  \<open>obj[:n]\<close>: a string and a list are sliced; every other object raises (a dict raises
  \<open>TypeError\<close> or, in newer interpreters, \<open>KeyError\<close>: the handlers below treat both alike).
\<close>

fun py_slice_to :: "pyval \<Rightarrow> nat \<Rightarrow> exn + pyval" where
  "py_slice_to (PStr s) n = Inr (PStr (take n s))"
| "py_slice_to (PList l) n = Inr (PList (take n l))"
| "py_slice_to obj n = Inl TypeError"

text \<open>\<open>for x in obj\<close>: the elements of a list, the keys of a dict, the characters of a string.\<close>

fun py_iter :: "pyval \<Rightarrow> exn + pyval list" where
  "py_iter (PList l) = Inr l"
| "py_iter (PDict kvs) = Inr (map PStr (remdups (map fst kvs)))"
| "py_iter (PStr s) = Inr (map (\<lambda>c. PStr [c]) s)"
| "py_iter obj = Inl TypeError"

text \<open>
  \<open>k in obj\<close>, \<open>obj[k] = v\<close> and \<open>del obj[k]\<close> for a string \<open>k\<close>: a key of a dict, an
  element of a list or a substring of a string for \<open>in\<close>; a dict only for the other two.
\<close>

fun py_contains :: "pyval \<Rightarrow> pystr \<Rightarrow> exn + bool" where
  "py_contains (PDict kvs) k = Inr (k \<in> fst ` set kvs)"
| "py_contains (PList l) k = Inr (PStr k \<in> set l)"
| "py_contains (PStr s) k = Inr (list_ex (\<lambda>i. take (length k) (drop i s) = k) [0..<Suc (length s)])"
| "py_contains obj k = Inl TypeError"

fun py_setitem :: "pyval \<Rightarrow> pystr \<Rightarrow> pyval \<Rightarrow> exn + pyval" where
  "py_setitem (PDict kvs) k v = Inr (PDict (AList.update k v kvs))"
| "py_setitem obj k v = Inl TypeError"

fun py_delitem :: "pyval \<Rightarrow> pystr \<Rightarrow> exn + pyval" where
  "py_delitem (PDict kvs) k =
     (if k \<in> fst ` set kvs then Inr (PDict (AList.delete k kvs)) else Inl KeyError)"
| "py_delitem obj k = Inl TypeError"

subsection \<open>String methods\<close>

text \<open>The code points for which \<open>str.isspace\<close> holds: what \<open>strip()\<close> removes.\<close>

definition isspace :: "nat \<Rightarrow> bool" where
  "isspace c \<longleftrightarrow>
     (9 \<le> c \<and> c \<le> 13) \<or> (28 \<le> c \<and> c \<le> 32) \<or> c = 133 \<or> c = 160 \<or> c = 5760 \<or>
     (8192 \<le> c \<and> c \<le> 8202) \<or> c = 8232 \<or> c = 8233 \<or> c = 8239 \<or> c = 8287 \<or> c = 12288"

definition strip :: "pystr \<Rightarrow> pystr" where
  "strip s = rev (dropWhile isspace (rev (dropWhile isspace s)))"

definition startswith :: "pystr \<Rightarrow> pystr \<Rightarrow> bool" where
  "startswith s p \<longleftrightarrow> take (length p) s = p"

definition endswith :: "pystr \<Rightarrow> pystr \<Rightarrow> bool" where
  "endswith s p \<longleftrightarrow> length p \<le> length s \<and> drop (length s - length p) s = p"

text \<open>\<open>obj.strip()\<close>: only a string has the method.\<close>

fun py_strip :: "pyval \<Rightarrow> exn + pystr" where
  "py_strip (PStr s) = Inr (strip s)"
| "py_strip obj = Inl AttributeError"

section \<open>Validation of the drafts\<close>

definition CHAR_LIMITS :: "(pystr \<times> nat) list" where
  "CHAR_LIMITS = [(str ''titulo'', 40), (str ''descricao'', 250), (str ''cta'', 20)]"

text \<open>\<open>CHAR_LIMITS[k]\<close>.\<close>

definition char_limit :: "pystr \<Rightarrow> exn + nat" where
  "char_limit k = (case map_of CHAR_LIMITS k of None \<Rightarrow> Inl KeyError | Some n \<Rightarrow> Inr n)"

text \<open>\<open>ad.get(k, "")[:CHAR_LIMITS[k]]\<close>, evaluated left to right.\<close>

definition limited_field :: "pyval \<Rightarrow> pystr \<Rightarrow> exn + pyval" where
  "limited_field ad k =
     (case py_get ad k (PStr []) of
        Inl e \<Rightarrow> Inl e
      | Inr v \<Rightarrow> (case char_limit k of Inl e \<Rightarrow> Inl e | Inr n \<Rightarrow> py_slice_to v n))"

text \<open>\<open>ad.get(k, "")[:n]\<close>.\<close>

definition sliced_field :: "pyval \<Rightarrow> pystr \<Rightarrow> nat \<Rightarrow> exn + pyval" where
  "sliced_field ad k n =
     (case py_get ad k (PStr []) of Inl e \<Rightarrow> Inl e | Inr v \<Rightarrow> py_slice_to v n)"

text \<open>The body of the loop of \<open>validate_and_truncate_ads\<close>: the dict \<open>validated_ad\<close>.\<close>

definition validated_ad :: "pyval \<Rightarrow> exn + pyval" where
  "validated_ad ad =
     (case limited_field ad (str ''titulo'') of Inl e \<Rightarrow> Inl e | Inr t \<Rightarrow>
     (case limited_field ad (str ''descricao'') of Inl e \<Rightarrow> Inl e | Inr d \<Rightarrow>
     (case limited_field ad (str ''cta'') of Inl e \<Rightarrow> Inl e | Inr c \<Rightarrow>
     (case sliced_field ad (str ''image_prompt'') 200 of Inl e \<Rightarrow> Inl e | Inr p \<Rightarrow>
        Inr (PDict [(str ''titulo'', t), (str ''descricao'', d), (str ''cta'', c),
                    (str ''image_prompt'', p)])))))"

fun validate_loop :: "pyval list \<Rightarrow> pyval list \<Rightarrow> exn + pyval list" where
  "validate_loop [] validated_ads = Inr validated_ads"
| "validate_loop (ad # ads) validated_ads =
     (case validated_ad ad of
        Inl e \<Rightarrow> Inl e
      | Inr v \<Rightarrow> validate_loop ads (validated_ads @ [v]))"

definition validate_and_truncate_ads :: "pyval \<Rightarrow> exn + pyval list" where
  "validate_and_truncate_ads ads =
     (case py_iter ads of Inl e \<Rightarrow> Inl e | Inr items \<Rightarrow> validate_loop items [])"

section \<open>The environment\<close>

text \<open>
  A call to one of the two upstream services, with the text sent: the user message of the
  chat completion, the full prompt of the image generation. The other arguments of both
  calls are constants of the source.
\<close>

datatype call = ChatCall pystr | ImageCall pystr

text \<open>
  What the code reads from outside itself.
  \<^item> \<open>api_key\<close>: \<open>os.getenv("OPENAI_API_KEY")\<close>.
  \<^item> \<open>chat_create\<close>: \<open>client.chat.completions.create\<close>, as the list of the
    \<open>message.content\<close> of the choices it returns, or the exception it raises.
  \<^item> \<open>images_generate\<close>: \<open>client.images.generate\<close>, as the list of the \<open>url\<close> of the
    images it returns, or the exception it raises. Its answer may differ from call to
    call: it depends on the calls made before as well as on the prompt.
  \<^item> \<open>json_loads\<close>: \<open>json.loads\<close>.
  \<^item> \<open>format_obj\<close>: the text an f-string gives an object that is not a string.
  \<^item> \<open>exn_text\<close>: \<open>str(e)\<close> of an exception raised by the interpreter.
  \<^item> \<open>print_stdout\<close>: \<open>print\<close> of a text to the standard output: \<open>None\<close> when the line is
    written, the exception when the write raises (the stream cannot encode the text, or
    is closed).
\<close>

record env =
  api_key :: "pystr option"
  chat_create :: "pystr \<Rightarrow> exn + pystr option list"
  images_generate :: "call list \<Rightarrow> pystr \<Rightarrow> exn + pystr option list"
  json_loads :: "pystr \<Rightarrow> exn + pyval"
  format_obj :: "pyval \<Rightarrow> pystr"
  exn_text :: "exn \<Rightarrow> pystr"
  print_stdout :: "pystr \<Rightarrow> exn option"

fun str_exn :: "env \<Rightarrow> exn \<Rightarrow> pystr" where
  "str_exn E (JSONDecodeError m) = m"
| "str_exn E (ValueError m) = m"
| "str_exn E (UnicodeEncodeError m) = m"
| "str_exn E (Exception m) = m"
| "str_exn E (OtherError m) = m"
| "str_exn E e = exn_text E e"

fun py_format :: "env \<Rightarrow> pyval \<Rightarrow> pystr" where
  "py_format E (PStr s) = s"
| "py_format E obj = format_obj E obj"

section \<open>The image synthesizer\<close>

definition full_prompt :: "env \<Rightarrow> pyval \<Rightarrow> pystr \<Rightarrow> pystr" where
  "full_prompt E prompt style =
     str ''Create a professional advertising image: '' @
     (if style \<noteq> [] then py_format E prompt @ str '', '' @ style @ str '' style''
      else py_format E prompt) @
     str ''. High quality, suitable for social media ads, no text overlay.''"

text \<open>
  The \<open>try\<close> block of \<open>generate_image_with_dalle\<close>: the call, then \<open>response.data[0].url\<close>.
\<close>

definition dalle_request :: "env \<Rightarrow> call list \<Rightarrow> pyval \<Rightarrow> pystr \<Rightarrow> exn + pyval" where
  "dalle_request E lg prompt style =
     (case images_generate E lg (full_prompt E prompt style) of
        Inl e \<Rightarrow> Inl e
      | Inr data \<Rightarrow>
          (case data of
             [] \<Rightarrow> Inl IndexError
           | url # rest \<Rightarrow> Inr (case url of None \<Rightarrow> PNone | Some u \<Rightarrow> PStr u)))"

text \<open>
  The handler of \<open>generate_image_with_dalle\<close>: \<open>except Exception as e\<close> prints a line
  with \<open>str(e)\<close> and then returns \<open>None\<close>. The \<open>print\<close> stands inside the handler, so an
  exception that it raises leaves the function.
\<close>

definition dalle_handler :: "env \<Rightarrow> exn \<Rightarrow> exn + pyval" where
  "dalle_handler E e =
     (case print_stdout E (str ''Erro ao gerar imagem: '' @ str_exn E e) of
        Some raised \<Rightarrow> Inl raised
      | None \<Rightarrow> Inr PNone)"

text \<open>
  \<open>generate_image_with_dalle\<close>: the \<open>try\<close> block, and the handler for every exception of
  the block. The call is added to the log of upstream calls.
\<close>

definition generate_image_with_dalle ::
  "env \<Rightarrow> call list \<Rightarrow> pyval \<Rightarrow> pystr \<Rightarrow> (exn + pyval) \<times> call list" where
  "generate_image_with_dalle E lg prompt style =
     (case dalle_request E lg prompt style of
        Inl e \<Rightarrow> (dalle_handler E e, lg @ [ImageCall (full_prompt E prompt style)])
      | Inr url \<Rightarrow> (Inr url, lg @ [ImageCall (full_prompt E prompt style)]))"

section \<open>The copy generator\<close>

text \<open>The user message. Code points above 127 are written as numbers.\<close>

definition estilo_info :: "pystr \<Rightarrow> pystr" where
  "estilo_info estilo_visual =
     (if estilo_visual \<noteq> [] then [10] @ str ''ESTILO VISUAL DESEJADO: '' @ estilo_visual
      else [])"

definition user_prompt :: "pystr \<Rightarrow> pystr \<Rightarrow> pystr \<Rightarrow> pystr \<Rightarrow> pystr" where
  "user_prompt oferta cliente nicho estilo_visual =
     str ''Gere 5 varia'' @ [231, 245] @ str ''es de an'' @ [250] @ str ''ncios para:'' @ [10, 10] @
     str ''OFERTA PRINCIPAL: '' @ oferta @ [10] @
     str ''CLIENTE/EMPRESA: '' @ cliente @ [10] @
     str ''NICHO/P'' @ [218] @ str ''BLICO-ALVO: '' @ nicho @ estilo_info estilo_visual @ [10, 10] @
     str ''Lembre-se:'' @ [10] @
     str ''- Retorne APENAS o array JSON'' @ [10] @
     str ''- Inclua o campo '' @ [34] @ str ''image_prompt'' @ [34] @ str '' em INGL'' @ [202] @
       str ''S para cada varia'' @ [231, 227] @ str ''o'' @ [10] @
     str ''- A descri'' @ [231, 227] @ str ''o agora pode ter at'' @ [233] @
       str '' 250 caracteres (mais detalhada)''"

text \<open>
  From the content of the answer to the text given to \<open>json.loads\<close>: \<open>strip()\<close>, the three
  tests for the markdown markers, \<open>strip()\<close> again.
\<close>

definition strip_markdown :: "pystr \<Rightarrow> pystr" where
  "strip_markdown content =
     (let t0 = strip content;
          t1 = (if startswith t0 (str ''```json'') then drop 7 t0 else t0);
          t2 = (if startswith t1 (str ''```'') then drop 3 t1 else t1);
          t3 = (if endswith t2 (str ''```'') then take (length t2 - 3) t2 else t2)
      in strip t3)"

text \<open>
  The \<open>try\<close> block of \<open>generate_ads_with_openai\<close>: \<open>response.choices[0].message.content\<close>
  raises \<open>IndexError\<close> when there is no choice, and \<open>.strip()\<close> raises \<open>AttributeError\<close>
  when the content is \<open>None\<close>.
\<close>

definition copy_request :: "env \<Rightarrow> pystr \<Rightarrow> exn + pyval list" where
  "copy_request E prompt =
     (case chat_create E prompt of
        Inl e \<Rightarrow> Inl e
      | Inr choices \<Rightarrow>
          (case choices of
             [] \<Rightarrow> Inl IndexError
           | content # rest \<Rightarrow>
               (case content of
                  None \<Rightarrow> Inl AttributeError
                | Some response_text \<Rightarrow>
                    (case json_loads E (strip_markdown response_text) of
                       Inl e \<Rightarrow> Inl e
                     | Inr ads \<Rightarrow> validate_and_truncate_ads ads))))"

text \<open>
  \<open>generate_ads_with_openai\<close>: the two handlers, \<open>except json.JSONDecodeError\<close> first, then
  \<open>except Exception\<close>; each raises a new exception with a prefix and \<open>str(e)\<close>.
\<close>

definition generate_ads_with_openai ::
  "env \<Rightarrow> pystr \<Rightarrow> pystr \<Rightarrow> pystr \<Rightarrow> pystr \<Rightarrow> (exn + pyval list) \<times> call list" where
  "generate_ads_with_openai E oferta cliente nicho estilo_visual =
     (case copy_request E (user_prompt oferta cliente nicho estilo_visual) of
        Inl e \<Rightarrow>
          (if is_JSONDecodeError e
           then Inl (ValueError (str ''Erro ao processar resposta da IA: '' @ str_exn E e))
           else Inl (Exception (str ''Erro na comunica'' @ [231, 227] @ str ''o com a API: '' @
                                str_exn E e)))
      | Inr validated_ads \<Rightarrow> Inr validated_ads,
      [ChatCall (user_prompt oferta cliente nicho estilo_visual)])"

section \<open>The endpoint\<close>

text \<open>\<open>jsonify({"success": False, "error": msg})\<close> and \<open>jsonify({"success": True, "data": ads})\<close>.\<close>

definition failure :: "pystr \<Rightarrow> pyval" where
  "failure msg = PDict [(str ''success'', PBool False), (str ''error'', PStr msg)]"

definition success :: "pyval list \<Rightarrow> pyval" where
  "success ads = PDict [(str ''success'', PBool True), (str ''data'', PList ads)]"

text \<open>The messages of the responses that are not built from an exception.\<close>

definition msg_no_key :: pystr where
  "msg_no_key =
     str ''API Key da OpenAI n'' @ [227] @ str ''o configurada. Verifique o arquivo .env''"

definition msg_no_data :: pystr where
  "msg_no_data = str ''Nenhum dado enviado na requisi'' @ [231, 227] @ str ''o''"

definition msg_oferta :: pystr where
  "msg_oferta = str ''O campo '' @ [39] @ str ''oferta'' @ [39] @ str '' '' @ [233] @
     str '' obrigat'' @ [243] @ str ''rio''"

definition msg_cliente :: pystr where
  "msg_cliente = str ''O campo '' @ [39] @ str ''cliente'' @ [39] @ str '' '' @ [233] @
     str '' obrigat'' @ [243] @ str ''rio''"

definition msg_nicho :: pystr where
  "msg_nicho = str ''O campo '' @ [39] @ str ''nicho'' @ [39] @ str '' '' @ [233] @
     str '' obrigat'' @ [243] @ str ''rio''"

text \<open>\<open>data.get(k, "").strip()\<close>.\<close>

definition stripped_field :: "pyval \<Rightarrow> pystr \<Rightarrow> exn + pystr" where
  "stripped_field data k =
     (case py_get data k (PStr []) of Inl e \<Rightarrow> Inl e | Inr v \<Rightarrow> py_strip v)"

text \<open>
  One turn of the loop that attaches the images (\<open>generate_images\<close> true): the prompt is
  read, the synthesizer is called when the prompt is true, \<open>image_url\<close> is set and
  \<open>image_prompt\<close> is deleted. The log of upstream calls is passed along.
\<close>

definition with_image :: "env \<Rightarrow> pystr \<Rightarrow> call list \<Rightarrow> pyval \<Rightarrow> (exn + pyval) \<times> call list" where
  "with_image E estilo_visual lg ad =
     (case py_get ad (str ''image_prompt'') (PStr []) of
        Inl e \<Rightarrow> (Inl e, lg)
      | Inr image_prompt \<Rightarrow>
          (if truthy image_prompt then
             (case generate_image_with_dalle E lg image_prompt estilo_visual of
                (Inl e, lg') \<Rightarrow> (Inl e, lg')
              | (Inr image_url, lg') \<Rightarrow>
                  (case py_setitem ad (str ''image_url'') image_url of
                     Inl e \<Rightarrow> (Inl e, lg')
                   | Inr ad' \<Rightarrow> (py_delitem ad' (str ''image_prompt''), lg')))
           else
             (case py_setitem ad (str ''image_url'') PNone of
                Inl e \<Rightarrow> (Inl e, lg)
              | Inr ad' \<Rightarrow> (py_delitem ad' (str ''image_prompt''), lg))))"

fun with_images :: "env \<Rightarrow> pystr \<Rightarrow> call list \<Rightarrow> pyval list \<Rightarrow> (exn + pyval list) \<times> call list" where
  "with_images E estilo_visual lg [] = (Inr [], lg)"
| "with_images E estilo_visual lg (ad # ads) =
     (case with_image E estilo_visual lg ad of
        (Inl e, lg') \<Rightarrow> (Inl e, lg')
      | (Inr ad', lg') \<Rightarrow>
          (case with_images E estilo_visual lg' ads of
             (Inl e, lg'') \<Rightarrow> (Inl e, lg'')
           | (Inr ads', lg'') \<Rightarrow> (Inr (ad' # ads'), lg'')))"

text \<open>
  One turn of the other loop (\<open>generate_images\<close> false): \<open>image_prompt\<close> is deleted when it
  is there, and \<open>image_url\<close> is set to \<open>None\<close>.
\<close>

definition without_image :: "pyval \<Rightarrow> exn + pyval" where
  "without_image ad =
     (case py_contains ad (str ''image_prompt'') of
        Inl e \<Rightarrow> Inl e
      | Inr present \<Rightarrow>
          (case (if present then py_delitem ad (str ''image_prompt'') else Inr ad) of
             Inl e \<Rightarrow> Inl e
           | Inr ad' \<Rightarrow> py_setitem ad' (str ''image_url'') PNone))"

fun without_images :: "pyval list \<Rightarrow> exn + pyval list" where
  "without_images [] = Inr []"
| "without_images (ad # ads) =
     (case without_image ad of
        Inl e \<Rightarrow> Inl e
      | Inr ad' \<Rightarrow>
          (case without_images ads of Inl e \<Rightarrow> Inl e | Inr ads' \<Rightarrow> Inr (ad' # ads')))"

text \<open>The \<open>try\<close> block of \<open>generate_ads\<close>, up to the list given to \<open>jsonify\<close>.\<close>

definition generation ::
  "env \<Rightarrow> pystr \<Rightarrow> pystr \<Rightarrow> pystr \<Rightarrow> pystr \<Rightarrow> pyval \<Rightarrow> (exn + pyval list) \<times> call list" where
  "generation E oferta cliente nicho estilo_visual generate_images =
     (case generate_ads_with_openai E oferta cliente nicho estilo_visual of
        (Inl e, lg) \<Rightarrow> (Inl e, lg)
      | (Inr ads, lg) \<Rightarrow>
          (if truthy generate_images then with_images E estilo_visual lg ads
           else (without_images ads, lg)))"

text \<open>
  The \<open>try\<close> statement with its handlers: \<open>except ValueError\<close> answers 422, \<open>except Exception\<close>
  answers 500, and a list that was built is answered with the default status 200.
\<close>

definition answer ::
  "env \<Rightarrow> pystr \<Rightarrow> pystr \<Rightarrow> pystr \<Rightarrow> pystr \<Rightarrow> pyval \<Rightarrow> (pyval \<times> nat) \<times> call list" where
  "answer E oferta cliente nicho estilo_visual generate_images =
     (case generation E oferta cliente nicho estilo_visual generate_images of
        (Inl e, lg) \<Rightarrow>
          (if is_ValueError e then ((failure (str_exn E e), 422), lg)
           else ((failure (str_exn E e), 500), lg))
      | (Inr ads, lg) \<Rightarrow> ((success ads, 200), lg))"

text \<open>
  The five reads of the request: \<open>data.get(k, "").strip()\<close> for the four texts, then
  \<open>data.get("generate_images", True)\<close>.
\<close>

definition request_fields :: "pyval \<Rightarrow> exn + (pystr \<times> pystr \<times> pystr \<times> pystr \<times> pyval)" where
  "request_fields data =
     (case stripped_field data (str ''oferta'') of Inl e \<Rightarrow> Inl e | Inr oferta \<Rightarrow>
     (case stripped_field data (str ''cliente'') of Inl e \<Rightarrow> Inl e | Inr cliente \<Rightarrow>
     (case stripped_field data (str ''nicho'') of Inl e \<Rightarrow> Inl e | Inr nicho \<Rightarrow>
     (case stripped_field data (str ''estilo_visual'') of Inl e \<Rightarrow> Inl e | Inr estilo_visual \<Rightarrow>
     (case py_get data (str ''generate_images'') (PBool True) of
        Inl e \<Rightarrow> Inl e
      | Inr generate_images \<Rightarrow> Inr (oferta, cliente, nicho, estilo_visual, generate_images))))))"

text \<open>
  \<open>generate_ads\<close>, for the object \<open>data\<close> that \<open>request.get_json()\<close> returned. The result is
  the response (body and status) or the exception that leaves the function (the reads of
  the request stand outside the \<open>try\<close>), and the log of the upstream calls made.
\<close>

definition generate_ads :: "env \<Rightarrow> pyval \<Rightarrow> (exn + pyval \<times> nat) \<times> call list" where
  "generate_ads E data =
     (if api_key E = None \<or> api_key E = Some [] then (Inr (failure msg_no_key, 500), [])
      else if \<not> truthy data then (Inr (failure msg_no_data, 400), [])
      else
       (case request_fields data of
          Inl e \<Rightarrow> (Inl e, [])
        | Inr (oferta, cliente, nicho, estilo_visual, generate_images) \<Rightarrow>
            (if oferta = [] then (Inr (failure msg_oferta, 400), [])
             else if cliente = [] then (Inr (failure msg_cliente, 400), [])
             else if nicho = [] then (Inr (failure msg_nicho, 400), [])
             else
              (case answer E oferta cliente nicho estilo_visual generate_images of
                 (response, lg) \<Rightarrow> (Inr response, lg)))))"

section \<open>Notions used to state the properties\<close>

text \<open>\<open>len(obj)\<close>, \<open>obj[k]\<close> and \<open>list(obj.keys())\<close>, to read the objects the code returns.\<close>

fun py_len :: "pyval \<Rightarrow> exn + nat" where
  "py_len (PStr s) = Inr (length s)"
| "py_len (PList l) = Inr (length l)"
| "py_len (PDict kvs) = Inr (length (remdups (map fst kvs)))"
| "py_len obj = Inl TypeError"

fun py_getitem :: "pyval \<Rightarrow> pystr \<Rightarrow> exn + pyval" where
  "py_getitem (PDict kvs) k = (case map_of kvs k of None \<Rightarrow> Inl KeyError | Some v \<Rightarrow> Inr v)"
| "py_getitem obj k = Inl TypeError"

fun py_keys :: "pyval \<Rightarrow> exn + pystr list" where
  "py_keys (PDict kvs) = Inr (remdups (map fst kvs))"
| "py_keys obj = Inl AttributeError"

text \<open>
  The shape of a draft as the prompt asks for it: an object whose values for the four
  keys, where the key is there, are texts.
\<close>

definition text_or_absent :: "(pystr \<times> pyval) list \<Rightarrow> pystr \<Rightarrow> bool" where
  "text_or_absent kvs k \<longleftrightarrow>
     (case map_of kvs k of None \<Rightarrow> True | Some (PStr s) \<Rightarrow> True | Some v \<Rightarrow> False)"

fun ad_object :: "pyval \<Rightarrow> bool" where
  "ad_object (PDict kvs) \<longleftrightarrow>
     text_or_absent kvs (str ''titulo'') \<and> text_or_absent kvs (str ''descricao'') \<and>
     text_or_absent kvs (str ''cta'') \<and> text_or_absent kvs (str ''image_prompt'')"
| "ad_object obj \<longleftrightarrow> False"

text \<open>A key whose value is a text of at most \<open>n\<close> characters.\<close>

definition text_within :: "(pystr \<times> pyval) list \<Rightarrow> pystr \<Rightarrow> nat \<Rightarrow> bool" where
  "text_within kvs k n \<longleftrightarrow>
     (case map_of kvs k of Some (PStr s) \<Rightarrow> length s \<le> n | _ \<Rightarrow> False)"

fun within_budget :: "pyval \<Rightarrow> bool" where
  "within_budget (PDict kvs) \<longleftrightarrow>
     text_within kvs (str ''titulo'') 40 \<and> text_within kvs (str ''descricao'') 250 \<and>
     text_within kvs (str ''cta'') 20 \<and> text_within kvs (str ''image_prompt'') 200"
| "within_budget obj \<longleftrightarrow> False"

text \<open>A field of the request that is missing, or a text that is empty once trimmed.\<close>

definition missing_or_blank :: "(pystr \<times> pyval) list \<Rightarrow> pystr \<Rightarrow> bool" where
  "missing_or_blank kvs k \<longleftrightarrow>
     (case map_of kvs k of None \<Rightarrow> True | Some (PStr s) \<Rightarrow> strip s = [] | Some v \<Rightarrow> False)"

text \<open>
  A request that passes the checks that stand before the \<open>try\<close>: the key is configured,
  the body is true, the five reads succeed, and the three required texts are not empty.
\<close>

definition accepted ::
  "env \<Rightarrow> pyval \<Rightarrow> pystr \<Rightarrow> pystr \<Rightarrow> pystr \<Rightarrow> pystr \<Rightarrow> pyval \<Rightarrow> bool" where
  "accepted E data oferta cliente nicho estilo_visual generate_images \<longleftrightarrow>
     api_key E \<noteq> None \<and> api_key E \<noteq> Some [] \<and> truthy data \<and>
     request_fields data = Inr (oferta, cliente, nicho, estilo_visual, generate_images) \<and>
     oferta \<noteq> [] \<and> cliente \<noteq> [] \<and> nicho \<noteq> []"

text \<open>
  The image prompt of a validated draft, and the image calls that a list of drafts gives
  rise to, in order: one for each draft whose prompt is true.
\<close>

fun image_prompt_of :: "pyval \<Rightarrow> pyval" where
  "image_prompt_of (PDict kvs) =
     (case map_of kvs (str ''image_prompt'') of None \<Rightarrow> PStr [] | Some v \<Rightarrow> v)"
| "image_prompt_of obj = PStr []"

definition image_calls :: "env \<Rightarrow> pystr \<Rightarrow> pyval list \<Rightarrow> call list" where
  "image_calls E estilo_visual ads =
     map (\<lambda>p. ImageCall (full_prompt E p estilo_visual))
       (filter truthy (map image_prompt_of ads))"

text \<open>
  What the orchestrator is to attach to a draft as \<open>image_url\<close>, given the calls made so
  far: the result of the synthesizer for the draft's prompt when that prompt is true,
  \<open>None\<close> otherwise. It is an exception when the synthesizer raises one.
\<close>

definition expected_url :: "env \<Rightarrow> pystr \<Rightarrow> call list \<Rightarrow> pyval \<Rightarrow> exn + pyval" where
  "expected_url E estilo_visual lg ad =
     (if truthy (image_prompt_of ad)
      then fst (generate_image_with_dalle E lg (image_prompt_of ad) estilo_visual)
      else Inr PNone)"

text \<open>The public form of a draft: \<open>image_url\<close> bound to \<open>u\<close>, and no \<open>image_prompt\<close>.\<close>

fun published :: "pyval \<Rightarrow> pyval \<Rightarrow> pyval" where
  "published (PDict kvs) u =
     PDict (AList.delete (str ''image_prompt'') (AList.update (str ''image_url'') u kvs))"
| "published obj u = obj"

fun is_image_call :: "call \<Rightarrow> bool" where
  "is_image_call (ImageCall p) = True"
| "is_image_call (ChatCall p) = False"

section \<open>Sample inputs\<close>

text \<open>One draft whose title has 45 characters and that has a key the code does not read.\<close>

definition long_title_ads :: pyval where
  "long_title_ads = PList [PDict [(str ''titulo'', PStr (replicate 45 120)), (str ''extra'', PInt 1)]]"

definition long_title_out :: pyval where
  "long_title_out = PDict [(str ''titulo'', PStr (replicate 40 120)), (str ''descricao'', PStr []),
     (str ''cta'', PStr []), (str ''image_prompt'', PStr [])]"

text \<open>One draft that has no \<open>cta\<close>.\<close>

definition no_cta_ads :: "pyval list" where
  "no_cta_ads = [PDict [(str ''titulo'', PStr (str ''Oferta'')), (str ''descricao'', PStr (str ''So hoje'')),
     (str ''image_prompt'', PStr (str ''sun''))]]"

text \<open>One draft whose four texts are within their limits.\<close>

definition short_ads :: "pyval list" where
  "short_ads = [PDict [(str ''titulo'', PStr (str ''Oferta'')), (str ''descricao'', PStr (str ''So hoje'')),
     (str ''cta'', PStr (str ''Compre'')), (str ''image_prompt'', PStr (str ''sun''))]]"

text \<open>
  A sample answer of the chat service: three drafts in a fenced block, the third without
  an image prompt. \<open>sample_loads\<close> stands for \<open>json.loads\<close> on that text and rejects every
  other text.
\<close>

definition sample_payload :: pystr where
  \<open>sample_payload =
     str ''[{"titulo": "Oferta", "image_prompt": "sun"}, {"titulo": "Agora", "image_prompt": "sea"}, {"cta": "Compre"}]''\<close>

definition sample_drafts :: pyval where
  "sample_drafts = PList
     [PDict [(str ''titulo'', PStr (str ''Oferta'')), (str ''image_prompt'', PStr (str ''sun''))],
      PDict [(str ''titulo'', PStr (str ''Agora'')), (str ''image_prompt'', PStr (str ''sea''))],
      PDict [(str ''cta'', PStr (str ''Compre''))]]"

definition sample_content :: pystr where
  "sample_content = str ''```json'' @ [10] @ sample_payload @ [10] @ str ''```''"

definition sample_loads :: "pystr \<Rightarrow> exn + pyval" where
  "sample_loads s =
     (if s = sample_payload then Inr sample_drafts
      else Inl (JSONDecodeError (str ''Expecting value: line 1 column 1 (char 0)'')))"

text \<open>
  A sample image service: its first call of a request fails, the later ones succeed. In
  the sample environment every line printed is written.
\<close>

definition sample_images :: "call list \<Rightarrow> pystr \<Rightarrow> exn + pystr option list" where
  "sample_images lg prompt =
     (if length lg = 1 then Inl (OtherError (str ''Connection error.''))
      else Inr [Some (str ''https://img.example/a.png'')])"

definition sample_env :: env where
  "sample_env = \<lparr>api_key = Some (str ''sk-test''),
     chat_create = (\<lambda>prompt. Inr [Some sample_content]),
     images_generate = sample_images,
     json_loads = sample_loads,
     format_obj = (\<lambda>obj. []),
     exn_text = (\<lambda>e. []),
     print_stdout = (\<lambda>text. None)\<rparr>"

definition sample_request :: pyval where
  "sample_request = PDict [(str ''oferta'', PStr (str '' 50% off '')),
     (str ''cliente'', PStr (str ''Loja'')), (str ''nicho'', PStr (str ''Moda''))]"

definition sample_request_no_images :: pyval where
  "sample_request_no_images = PDict [(str ''oferta'', PStr (str '' 50% off '')),
     (str ''cliente'', PStr (str ''Loja'')), (str ''nicho'', PStr (str ''Moda'')),
     (str ''generate_images'', PBool False)]"

definition sample_validated :: "pyval list" where
  "sample_validated =
     [PDict [(str ''titulo'', PStr (str ''Oferta'')), (str ''descricao'', PStr []),
             (str ''cta'', PStr []), (str ''image_prompt'', PStr (str ''sun''))],
      PDict [(str ''titulo'', PStr (str ''Agora'')), (str ''descricao'', PStr []),
             (str ''cta'', PStr []), (str ''image_prompt'', PStr (str ''sea''))],
      PDict [(str ''titulo'', PStr []), (str ''descricao'', PStr []),
             (str ''cta'', PStr (str ''Compre'')), (str ''image_prompt'', PStr [])]]"

text \<open>
  An answer of the chat service that is an object holding the list, not the list: valid
  JSON that is not an array of objects. \<open>wrapped_loads\<close> stands for \<open>json.loads\<close> on that text.
\<close>

definition wrapped_payload :: pystr where
  \<open>wrapped_payload = str ''{"ads": []}''\<close>

definition wrapped_loads :: "pystr \<Rightarrow> exn + pyval" where
  "wrapped_loads s =
     (if s = wrapped_payload then Inr (PDict [(str ''ads'', PList [])])
      else Inl (JSONDecodeError (str ''Expecting value: line 1 column 1 (char 0)'')))"

definition wrapped_env :: env where
  "wrapped_env = \<lparr>api_key = Some (str ''sk-test''),
     chat_create = (\<lambda>prompt. Inr [Some wrapped_payload]),
     images_generate = sample_images,
     json_loads = wrapped_loads,
     format_obj = (\<lambda>obj. []),
     exn_text = (\<lambda>e. [39] @ str ''str'' @ [39] @ str '' object has no attribute '' @
                      [39] @ str ''get'' @ [39]),
     print_stdout = (\<lambda>text. None)\<rparr>"

text \<open>An answer of the chat service that is not JSON.\<close>

definition prose_env :: env where
  "prose_env = \<lparr>api_key = Some (str ''sk-test''),
     chat_create = (\<lambda>prompt. Inr [Some (str ''Desculpe'')]),
     images_generate = sample_images,
     json_loads = wrapped_loads,
     format_obj = (\<lambda>obj. []),
     exn_text = (\<lambda>e. []),
     print_stdout = (\<lambda>text. None)\<rparr>"

text \<open>A request without \<open>cliente\<close>.\<close>

definition no_cliente_request :: "(pystr \<times> pyval) list" where
  "no_cliente_request = [(str ''oferta'', PStr (str '' 50% off '')), (str ''nicho'', PStr (str ''Moda''))]"

text \<open>
  An image service whose exception has a text with a lone surrogate (code point D83D),
  and a standard output in UTF-8: \<open>garbled_print\<close> stands for \<open>print\<close> on the line that the
  handler writes for that exception, which the stream cannot encode; every text without
  a surrogate is written.
\<close>

definition garbled_images :: "call list \<Rightarrow> pystr \<Rightarrow> exn + pystr option list" where
  "garbled_images lg prompt = Inl (OtherError (str ''bad '' @ [55357]))"

definition garbled_msg :: pystr where
  "garbled_msg = [39] @ str ''utf-8'' @ [39] @ str '' codec can'' @ [39] @
     str ''t encode character '' @ [39, 92] @ str ''ud83d'' @ [39] @
     str '' in position 26: surrogates not allowed''"

definition garbled_print :: "pystr \<Rightarrow> exn option" where
  "garbled_print text =
     (if list_ex (\<lambda>c. 55296 \<le> c \<and> c \<le> 57343) text then Some (UnicodeEncodeError garbled_msg)
      else None)"

definition garbled_env :: env where
  "garbled_env = sample_env\<lparr>images_generate := garbled_images, print_stdout := garbled_print\<rparr>"

section \<open>Properties of the validation\<close>

lemma str_eq_iff [simp]: "str a = str b \<longleftrightarrow> a = b"
  unfolding str_def by (simp add: inj_map_eq_map inj_on_def)

lemma char_limit_titulo: "char_limit (str ''titulo'') = Inr 40"
  and char_limit_descricao: "char_limit (str ''descricao'') = Inr 250"
  and char_limit_cta: "char_limit (str ''cta'') = Inr 20"
  by (simp_all add: char_limit_def CHAR_LIMITS_def)

lemma sliced_field_Inr:
  "sliced_field ad k n = Inr v \<longleftrightarrow>
     (\<exists>kvs. ad = PDict kvs \<and>
        py_slice_to (case map_of kvs k of None \<Rightarrow> PStr [] | Some w \<Rightarrow> w) n = Inr v)"
  by (cases ad) (simp_all add: sliced_field_def)

lemma limited_field_titulo: "limited_field ad (str ''titulo'') = sliced_field ad (str ''titulo'') 40"
  by (simp add: limited_field_def sliced_field_def char_limit_titulo split: sum.splits)

lemma limited_field_descricao:
  "limited_field ad (str ''descricao'') = sliced_field ad (str ''descricao'') 250"
  by (simp add: limited_field_def sliced_field_def char_limit_descricao split: sum.splits)

lemma limited_field_cta: "limited_field ad (str ''cta'') = sliced_field ad (str ''cta'') 20"
  by (simp add: limited_field_def sliced_field_def char_limit_cta split: sum.splits)

lemmas limited_field_simps = limited_field_titulo limited_field_descricao limited_field_cta

lemma py_slice_to_Inr:
  "py_slice_to v n = Inr w \<longleftrightarrow>
     (\<exists>s. v = PStr s \<and> w = PStr (take n s)) \<or> (\<exists>l. v = PList l \<and> w = PList (take n l))"
  by (cases v) auto

lemma validated_ad_Inr:
  "validated_ad ad = Inr v \<longleftrightarrow>
     (\<exists>t d c p. sliced_field ad (str ''titulo'') 40 = Inr t \<and>
        sliced_field ad (str ''descricao'') 250 = Inr d \<and>
        sliced_field ad (str ''cta'') 20 = Inr c \<and>
        sliced_field ad (str ''image_prompt'') 200 = Inr p \<and>
        v = PDict [(str ''titulo'', t), (str ''descricao'', d), (str ''cta'', c),
                   (str ''image_prompt'', p)])"
  by (auto simp: validated_ad_def limited_field_simps split: sum.splits)

lemma validate_loop_Inr:
  "validate_loop items acc = Inr out \<longleftrightarrow>
     (\<exists>vs. out = acc @ vs \<and> list_all2 (\<lambda>ad v. validated_ad ad = Inr v) items vs)"
proof (induction items arbitrary: acc)
  case Nil
  show ?case by auto
next
  case (Cons ad items)
  show ?case
  proof (cases "validated_ad ad")
    case (Inl e)
    then show ?thesis by (auto simp: list_all2_Cons1)
  next
    case (Inr v)
    then show ?thesis by (auto simp: Cons.IH list_all2_Cons1)
  qed
qed

lemma validate_Inr:
  "validate_and_truncate_ads ads = Inr out \<longleftrightarrow>
     (\<exists>items. py_iter ads = Inr items \<and> list_all2 (\<lambda>ad v. validated_ad ad = Inr v) items out)"
  by (auto simp: validate_and_truncate_ads_def validate_loop_Inr split: sum.splits)

lemma sliced_field_len:
  assumes "sliced_field ad k n = Inr v"
  shows "\<exists>m. py_len v = Inr m \<and> m \<le> n"
  using assms by (auto simp: sliced_field_Inr py_slice_to_Inr)

lemma validated_of_member:
  assumes "validate_and_truncate_ads ads = Inr out" and "v \<in> set out"
  shows "\<exists>ad. validated_ad ad = Inr v"
proof -
  from assms(1) obtain items where "list_all2 (\<lambda>ad v. validated_ad ad = Inr v) items out"
    by (auto simp: validate_Inr)
  with assms(2) show ?thesis
    by (auto simp: list_all2_conv_all_nth in_set_conv_nth)
qed

text \<open>
  C1. Every object that \<open>validate_and_truncate_ads\<close> returns has a \<open>titulo\<close> of length at
  most 40, a \<open>descricao\<close> of length at most 250, a \<open>cta\<close> of length at most 20 and an
  \<open>image_prompt\<close> of length at most 200, whatever the input was.
\<close>

theorem returned_fields_within_limits:
  assumes "validate_and_truncate_ads ads = Inr out" and "ad \<in> set out"
  shows "(\<exists>v n. py_getitem ad (str ''titulo'') = Inr v \<and> py_len v = Inr n \<and> n \<le> 40) \<and>
         (\<exists>v n. py_getitem ad (str ''descricao'') = Inr v \<and> py_len v = Inr n \<and> n \<le> 250) \<and>
         (\<exists>v n. py_getitem ad (str ''cta'') = Inr v \<and> py_len v = Inr n \<and> n \<le> 20) \<and>
         (\<exists>v n. py_getitem ad (str ''image_prompt'') = Inr v \<and> py_len v = Inr n \<and> n \<le> 200)"
proof -
  from assms obtain src where "validated_ad src = Inr ad"
    using validated_of_member by blast
  then obtain t d c p where
    t: "sliced_field src (str ''titulo'') 40 = Inr t" and
    d: "sliced_field src (str ''descricao'') 250 = Inr d" and
    c: "sliced_field src (str ''cta'') 20 = Inr c" and
    p: "sliced_field src (str ''image_prompt'') 200 = Inr p" and
    ad: "ad = PDict [(str ''titulo'', t), (str ''descricao'', d), (str ''cta'', c),
                     (str ''image_prompt'', p)]"
    by (auto simp: validated_ad_Inr)
  have "\<exists>n. py_len t = Inr n \<and> n \<le> 40" using t by (rule sliced_field_len)
  moreover have "\<exists>n. py_len d = Inr n \<and> n \<le> 250" using d by (rule sliced_field_len)
  moreover have "\<exists>n. py_len c = Inr n \<and> n \<le> 20" using c by (rule sliced_field_len)
  moreover have "\<exists>n. py_len p = Inr n \<and> n \<le> 200" using p by (rule sliced_field_len)
  ultimately show ?thesis by (simp add: ad)
qed

lemma validated_ad_dict:
  "validated_ad (PDict kvs) =
     (case py_slice_to (case map_of kvs (str ''titulo'') of None \<Rightarrow> PStr [] | Some w \<Rightarrow> w) 40 of Inl e \<Rightarrow> Inl e | Inr t \<Rightarrow>
     (case py_slice_to (case map_of kvs (str ''descricao'') of None \<Rightarrow> PStr [] | Some w \<Rightarrow> w) 250 of Inl e \<Rightarrow> Inl e | Inr d \<Rightarrow>
     (case py_slice_to (case map_of kvs (str ''cta'') of None \<Rightarrow> PStr [] | Some w \<Rightarrow> w) 20 of Inl e \<Rightarrow> Inl e | Inr c \<Rightarrow>
     (case py_slice_to (case map_of kvs (str ''image_prompt'') of None \<Rightarrow> PStr [] | Some w \<Rightarrow> w) 200 of Inl e \<Rightarrow> Inl e | Inr p \<Rightarrow>
        Inr (PDict [(str ''titulo'', t), (str ''descricao'', d), (str ''cta'', c),
                    (str ''image_prompt'', p)])))))"
  by (simp add: validated_ad_def limited_field_simps sliced_field_def cong: sum.case_cong)

theorem returned_fields_within_limits_witness:
  "validate_and_truncate_ads long_title_ads = Inr [long_title_out] \<and>
   long_title_out \<in> set [long_title_out] \<and>
   (\<exists>v n. py_getitem long_title_out (str ''titulo'') = Inr v \<and> py_len v = Inr n \<and> n \<le> 40) \<and>
   (\<exists>v n. py_getitem long_title_out (str ''descricao'') = Inr v \<and> py_len v = Inr n \<and> n \<le> 250) \<and>
   (\<exists>v n. py_getitem long_title_out (str ''cta'') = Inr v \<and> py_len v = Inr n \<and> n \<le> 20) \<and>
   (\<exists>v n. py_getitem long_title_out (str ''image_prompt'') = Inr v \<and> py_len v = Inr n \<and> n \<le> 200)"
proof -
  have run: "validate_and_truncate_ads long_title_ads = Inr [long_title_out]"
    by (simp add: validate_and_truncate_ads_def long_title_ads_def long_title_out_def validated_ad_dict)
  have mem: "long_title_out \<in> set [long_title_out]" by simp
  from returned_fields_within_limits [OF run mem] run mem show ?thesis by blast
qed

lemma text_or_absent_slice:
  assumes "text_or_absent kvs k"
  shows "\<exists>s. py_slice_to (case map_of kvs k of None \<Rightarrow> PStr [] | Some w \<Rightarrow> w) n = Inr (PStr s)"
  using assms by (auto simp: text_or_absent_def split: option.splits pyval.splits)

lemma ad_object_validated:
  assumes "ad_object ad"
  shows "\<exists>v. validated_ad ad = Inr v"
proof -
  from assms obtain kvs where ad: "ad = PDict kvs" by (cases ad) auto
  from assms ad text_or_absent_slice [of kvs "str ''titulo''" 40]
    text_or_absent_slice [of kvs "str ''descricao''" 250]
    text_or_absent_slice [of kvs "str ''cta''" 20]
    text_or_absent_slice [of kvs "str ''image_prompt''" 200]
  show ?thesis by (auto simp: validated_ad_dict)
qed

lemma ad_objects_validated:
  assumes "\<forall>ad \<in> set items. ad_object ad"
  shows "\<exists>out. validate_and_truncate_ads (PList items) = Inr out"
proof -
  have "\<exists>out. list_all2 (\<lambda>ad v. validated_ad ad = Inr v) items out"
    using assms
  proof (induction items)
    case Nil
    show ?case by simp
  next
    case (Cons ad items)
    then obtain out where "list_all2 (\<lambda>ad v. validated_ad ad = Inr v) items out" by auto
    moreover from Cons.prems obtain v where "validated_ad ad = Inr v"
      using ad_object_validated by auto
    ultimately have "list_all2 (\<lambda>ad v. validated_ad ad = Inr v) (ad # items) (v # out)" by simp
    then show ?case by blast
  qed
  then show ?thesis by (simp add: validate_Inr)
qed

lemma validated_nth:
  assumes "validate_and_truncate_ads (PList items) = Inr out"
  shows "length out = length items \<and> (\<forall>i < length items. validated_ad (items ! i) = Inr (out ! i))"
  using assms by (auto simp: validate_Inr list_all2_conv_all_nth)

lemma missing_key_field:
  assumes "validated_ad (PDict kvs) = Inr v" and "map_of kvs k = None"
    and "k \<in> {str ''titulo'', str ''descricao'', str ''cta'', str ''image_prompt''}"
  shows "py_getitem v k = Inr (PStr [])"
  using assms by (auto simp: validated_ad_Inr sliced_field_Inr py_slice_to_Inr)

text \<open>
  C2. When an object of the input list lacks one of the four keys, the object returned
  for it has that key, bound to the empty text. The function returns whenever every
  object of the list has the shape of a draft.
\<close>

theorem missing_key_becomes_empty_text:
  assumes "k \<in> {str ''titulo'', str ''descricao'', str ''cta'', str ''image_prompt''}"
    and "i < length items" and "items ! i = PDict kvs" and "map_of kvs k = None"
  shows "((\<forall>ad \<in> set items. ad_object ad) \<longrightarrow>
            (\<exists>out. validate_and_truncate_ads (PList items) = Inr out)) \<and>
         (\<forall>out. validate_and_truncate_ads (PList items) = Inr out \<longrightarrow>
            i < length out \<and> py_getitem (out ! i) k = Inr (PStr []))"
proof (intro conjI impI allI)
  assume "\<forall>ad \<in> set items. ad_object ad"
  then show "\<exists>out. validate_and_truncate_ads (PList items) = Inr out"
    by (rule ad_objects_validated)
next
  fix out
  assume run: "validate_and_truncate_ads (PList items) = Inr out"
  with assms(2) show "i < length out" by (simp add: validated_nth)
  from run assms(2,3) have "validated_ad (PDict kvs) = Inr (out ! i)"
    using validated_nth by fastforce
  then show "py_getitem (out ! i) k = Inr (PStr [])"
    using assms(4,1) by (rule missing_key_field)
qed

theorem missing_key_becomes_empty_text_witness:
  "list_all ad_object no_cta_ads \<and>
   (\<exists>out. validate_and_truncate_ads (PList no_cta_ads) = Inr out \<and> 0 < length out \<and>
      py_getitem (out ! 0) (str ''cta'') = Inr (PStr []))"
proof -
  have k: "str ''cta'' \<in> {str ''titulo'', str ''descricao'', str ''cta'', str ''image_prompt''}"
    by simp
  have i: "0 < length no_cta_ads" by (simp add: no_cta_ads_def)
  have d: "no_cta_ads ! 0 = PDict [(str ''titulo'', PStr (str ''Oferta'')),
     (str ''descricao'', PStr (str ''So hoje'')), (str ''image_prompt'', PStr (str ''sun''))]"
    by (simp add: no_cta_ads_def)
  have m: "map_of [(str ''titulo'', PStr (str ''Oferta'')),
     (str ''descricao'', PStr (str ''So hoje'')), (str ''image_prompt'', PStr (str ''sun''))] (str ''cta'') = None"
    by simp
  have shape: "\<forall>ad \<in> set no_cta_ads. ad_object ad"
    by (simp add: no_cta_ads_def text_or_absent_def)
  from missing_key_becomes_empty_text [OF k i d m] shape show ?thesis
    by (auto simp: list_all_iff)
qed

lemma length_str: "length (str s) = length s"
  by (simp add: str_def)

lemma py_slice_to_again:
  assumes "py_slice_to v n = Inr w"
  shows "py_slice_to w n = Inr w"
  using assms by (auto simp: py_slice_to_Inr)

lemma sliced_field_value:
  assumes "sliced_field ad k n = Inr w"
  shows "py_slice_to w n = Inr w"
  using assms by (auto simp: sliced_field_Inr py_slice_to_Inr)

lemma validated_ad_again:
  assumes "validated_ad ad = Inr v"
  shows "validated_ad v = Inr v"
proof -
  from assms obtain t d c p where
    t: "sliced_field ad (str ''titulo'') 40 = Inr t" and
    d: "sliced_field ad (str ''descricao'') 250 = Inr d" and
    c: "sliced_field ad (str ''cta'') 20 = Inr c" and
    p: "sliced_field ad (str ''image_prompt'') 200 = Inr p" and
    v: "v = PDict [(str ''titulo'', t), (str ''descricao'', d), (str ''cta'', c),
                   (str ''image_prompt'', p)]"
    by (auto simp: validated_ad_Inr)
  show ?thesis
    by (simp add: v validated_ad_dict sliced_field_value [OF t] sliced_field_value [OF d]
        sliced_field_value [OF c] sliced_field_value [OF p])
qed

lemma validate_again:
  assumes "validate_and_truncate_ads ads = Inr out"
  shows "validate_and_truncate_ads (PList out) = Inr out"
proof -
  from assms obtain items where "list_all2 (\<lambda>ad v. validated_ad ad = Inr v) items out"
    by (auto simp: validate_Inr)
  then have "\<forall>i < length out. validated_ad (out ! i) = Inr (out ! i)"
    by (auto simp: list_all2_conv_all_nth intro: validated_ad_again)
  then have "list_all2 (\<lambda>ad v. validated_ad ad = Inr v) out out"
    by (simp add: list_all2_conv_all_nth)
  then show ?thesis by (simp add: validate_Inr)
qed

lemma text_within_slice:
  assumes "text_within kvs k n"
  shows "\<exists>s. map_of kvs k = Some (PStr s) \<and>
           py_slice_to (case map_of kvs k of None \<Rightarrow> PStr [] | Some w \<Rightarrow> w) n = Inr (PStr s)"
  using assms by (auto simp: text_within_def split: option.splits pyval.splits)

lemma within_budget_fields:
  assumes "within_budget ad" and "validated_ad ad = Inr v"
    and "k \<in> {str ''titulo'', str ''descricao'', str ''cta'', str ''image_prompt''}"
  shows "py_getitem v k = py_getitem ad k"
proof -
  from assms(1) obtain kvs where ad: "ad = PDict kvs" by (cases ad) auto
  from assms(1) ad text_within_slice [of kvs "str ''titulo''" 40]
    text_within_slice [of kvs "str ''descricao''" 250]
    text_within_slice [of kvs "str ''cta''" 20]
    text_within_slice [of kvs "str ''image_prompt''" 200]
  obtain t d c p where
    "map_of kvs (str ''titulo'') = Some (PStr t)" "map_of kvs (str ''descricao'') = Some (PStr d)"
    "map_of kvs (str ''cta'') = Some (PStr c)" "map_of kvs (str ''image_prompt'') = Some (PStr p)"
    "validated_ad ad = Inr (PDict [(str ''titulo'', PStr t), (str ''descricao'', PStr d),
       (str ''cta'', PStr c), (str ''image_prompt'', PStr p)])"
    by (auto simp: validated_ad_dict)
  with assms(2,3) ad show ?thesis by auto
qed

lemma within_budget_ad_object:
  assumes "within_budget ad"
  shows "ad_object ad"
  using assms
  by (cases ad) (auto simp: text_within_def text_or_absent_def split: option.splits pyval.splits)

text \<open>
  C9. Validating what the validation returned changes nothing; and when every object of
  the list has the four texts within their limits, the validation returns them as they are.
\<close>

theorem validation_idempotent_and_noop:
  "(validate_and_truncate_ads ads = Inr out \<longrightarrow>
      validate_and_truncate_ads (PList out) = Inr out) \<and>
   ((\<forall>ad \<in> set items. within_budget ad) \<longrightarrow>
      (\<exists>res. validate_and_truncate_ads (PList items) = Inr res \<and> length res = length items \<and>
         validate_and_truncate_ads (PList res) = Inr res \<and>
         (\<forall>i < length items.
            \<forall>k \<in> {str ''titulo'', str ''descricao'', str ''cta'', str ''image_prompt''}.
              py_getitem (res ! i) k = py_getitem (items ! i) k)))"
proof (intro conjI impI)
  assume "validate_and_truncate_ads ads = Inr out"
  then show "validate_and_truncate_ads (PList out) = Inr out" by (rule validate_again)
next
  assume budget: "\<forall>ad \<in> set items. within_budget ad"
  then have "\<forall>ad \<in> set items. ad_object ad" by (simp add: within_budget_ad_object)
  then obtain res where run: "validate_and_truncate_ads (PList items) = Inr res"
    using ad_objects_validated by blast
  have len: "length res = length items" using run by (simp add: validated_nth)
  have "py_getitem (res ! i) k = py_getitem (items ! i) k"
    if "i < length items"
      and "k \<in> {str ''titulo'', str ''descricao'', str ''cta'', str ''image_prompt''}" for i k
  proof -
    from that(1) budget have "within_budget (items ! i)" by simp
    moreover from that(1) run have "validated_ad (items ! i) = Inr (res ! i)"
      by (simp add: validated_nth)
    ultimately show ?thesis using that(2) by (rule within_budget_fields)
  qed
  with run len validate_again [OF run]
  show "\<exists>res. validate_and_truncate_ads (PList items) = Inr res \<and> length res = length items \<and>
         validate_and_truncate_ads (PList res) = Inr res \<and>
         (\<forall>i < length items.
            \<forall>k \<in> {str ''titulo'', str ''descricao'', str ''cta'', str ''image_prompt''}.
              py_getitem (res ! i) k = py_getitem (items ! i) k)"
    by blast
qed

theorem validation_idempotent_and_noop_witness:
  "validate_and_truncate_ads (PList short_ads) = Inr short_ads \<and>
   validate_and_truncate_ads (PList short_ads) = Inr short_ads \<and>
   list_all within_budget short_ads \<and>
   (\<exists>res. validate_and_truncate_ads (PList short_ads) = Inr res \<and> length res = length short_ads \<and>
      py_getitem (res ! 0) (str ''titulo'') = Inr (PStr (str ''Oferta'')))"
proof -
  have run: "validate_and_truncate_ads (PList short_ads) = Inr short_ads"
    by (simp add: validate_and_truncate_ads_def short_ads_def validated_ad_dict length_str)
  have budget: "\<forall>ad \<in> set short_ads. within_budget ad"
    by (simp add: short_ads_def text_within_def length_str)
  have at: "py_getitem (short_ads ! 0) (str ''titulo'') = Inr (PStr (str ''Oferta''))"
    by (simp add: short_ads_def)
  have i: "0 < length short_ads" by (simp add: short_ads_def)
  from validation_idempotent_and_noop [of "PList short_ads" short_ads short_ads] run budget
  obtain res where res: "validate_and_truncate_ads (PList short_ads) = Inr res"
    "length res = length short_ads"
    "\<forall>i < length short_ads.
       \<forall>k \<in> {str ''titulo'', str ''descricao'', str ''cta'', str ''image_prompt''}.
         py_getitem (res ! i) k = py_getitem (short_ads ! i) k"
    by blast
  from res(3) i have "py_getitem (res ! 0) (str ''titulo'') = py_getitem (short_ads ! 0) (str ''titulo'')"
    by blast
  with at res run budget show ?thesis by (auto simp: list_all_iff)
qed

section \<open>Properties of the image loops\<close>

lemma dalle_log:
  "snd (generate_image_with_dalle E lg prompt style) =
     lg @ [ImageCall (full_prompt E prompt style)]"
  by (simp add: generate_image_with_dalle_def split: sum.splits)

lemma validated_shape:
  assumes "validated_ad a = Inr v"
  shows "\<exists>t d c p. v = PDict [(str ''titulo'', t), (str ''descricao'', d), (str ''cta'', c),
                                 (str ''image_prompt'', p)]"
  using assms by (auto simp: validated_ad_Inr)

lemma with_image_validated:
  assumes "validated_ad a = Inr v"
  shows "with_image E s lg v =
           (case expected_url E s lg v of
              Inl e \<Rightarrow> (Inl e, lg @ image_calls E s [v])
            | Inr u \<Rightarrow> (Inr (published v u), lg @ image_calls E s [v]))"
proof -
  from assms obtain t d c p where
    v: "v = PDict [(str ''titulo'', t), (str ''descricao'', d), (str ''cta'', c),
                   (str ''image_prompt'', p)]"
    using validated_shape by blast
  show ?thesis
  proof (cases "truthy p")
    case True
    obtain r where r: "generate_image_with_dalle E lg p s =
        (r, lg @ [ImageCall (full_prompt E p s)])"
      using dalle_log [of E lg p s] by (cases "generate_image_with_dalle E lg p s") simp
    with True show ?thesis
      by (cases r) (simp_all add: v with_image_def expected_url_def image_calls_def)
  next
    case False
    then show ?thesis
      by (simp add: v with_image_def expected_url_def image_calls_def)
  qed
qed

lemma image_calls_Cons: "image_calls E s (v # vs) = image_calls E s [v] @ image_calls E s vs"
  by (simp add: image_calls_def)

lemma image_calls_Nil: "image_calls E s [] = []"
  by (simp add: image_calls_def)

text \<open>When every call of the synthesizer returns, the loop returns the public forms.\<close>

lemma with_images_validated:
  assumes "\<forall>v \<in> set vs. \<exists>a. validated_ad a = Inr v"
    and "\<forall>i < length vs. \<exists>u.
           expected_url E s (lg @ image_calls E s (take i vs)) (vs ! i) = Inr u"
  shows "\<exists>res. with_images E s lg vs = (Inr res, lg @ image_calls E s vs) \<and>
           length res = length vs \<and>
           (\<forall>i < length vs. \<exists>u.
              expected_url E s (lg @ image_calls E s (take i vs)) (vs ! i) = Inr u \<and>
              res ! i = published (vs ! i) u)"
  using assms
proof (induction vs arbitrary: lg)
  case Nil
  show ?case by (simp add: image_calls_def)
next
  case (Cons v vs)
  from Cons.prems(1) obtain a where a: "validated_ad a = Inr v" by auto
  from Cons.prems(2) have "\<exists>u. expected_url E s (lg @ image_calls E s (take 0 (v # vs)))
      ((v # vs) ! 0) = Inr u"
    by blast
  then obtain u where u: "expected_url E s lg v = Inr u"
    by (auto simp: image_calls_Nil)
  with a have step: "with_image E s lg v = (Inr (published v u), lg @ image_calls E s [v])"
    by (simp add: with_image_validated)
  from Cons.prems(1) have val: "\<forall>w \<in> set vs. \<exists>a. validated_ad a = Inr w" by simp
  have ret: "\<forall>i < length vs. \<exists>u.
      expected_url E s ((lg @ image_calls E s [v]) @ image_calls E s (take i vs)) (vs ! i) = Inr u"
  proof (intro allI impI)
    fix i
    assume "i < length vs"
    then have "Suc i < length (v # vs)" by simp
    with Cons.prems(2) have "\<exists>u. expected_url E s
        (lg @ image_calls E s (take (Suc i) (v # vs))) ((v # vs) ! Suc i) = Inr u"
      by blast
    then show "\<exists>u. expected_url E s
        ((lg @ image_calls E s [v]) @ image_calls E s (take i vs)) (vs ! i) = Inr u"
      by (simp add: image_calls_Cons [of E s v "take i vs"])
  qed
  from Cons.IH [OF val ret] obtain res where
    loop: "with_images E s (lg @ image_calls E s [v]) vs =
             (Inr res, (lg @ image_calls E s [v]) @ image_calls E s vs)" and
    len: "length res = length vs" and
    each: "\<forall>i < length vs. \<exists>u.
             expected_url E s ((lg @ image_calls E s [v]) @ image_calls E s (take i vs)) (vs ! i) = Inr u \<and>
             res ! i = published (vs ! i) u"
    by blast
  have run: "with_images E s lg (v # vs) = (Inr (published v u # res), lg @ image_calls E s (v # vs))"
    using step loop by (simp add: image_calls_Cons [of E s v vs])
  have "\<exists>u'. expected_url E s (lg @ image_calls E s (take i (v # vs))) ((v # vs) ! i) = Inr u' \<and>
              (published v u # res) ! i = published ((v # vs) ! i) u'"
    if "i < length (v # vs)" for i
  proof (cases i)
    case 0
    with u show ?thesis by (simp add: image_calls_def)
  next
    case (Suc j)
    with that have "j < length vs" by simp
    with each obtain u' where
      "expected_url E s ((lg @ image_calls E s [v]) @ image_calls E s (take j vs)) (vs ! j) = Inr u'"
      "res ! j = published (vs ! j) u'"
      by blast
    with Suc show ?thesis by (simp add: image_calls_Cons [of E s v "take j vs"])
  qed
  with run len show ?case by auto
qed

text \<open>An exception of the loop is the exception of a call of the synthesizer.\<close>

lemma with_images_raises:
  assumes "\<forall>v \<in> set vs. \<exists>a. validated_ad a = Inr v"
    and "fst (with_images E s lg vs) = Inl e"
  shows "\<exists>i < length vs. expected_url E s (lg @ image_calls E s (take i vs)) (vs ! i) = Inl e"
  using assms
proof (induction vs arbitrary: lg)
  case Nil
  then show ?case by simp
next
  case (Cons v vs)
  from Cons.prems(1) obtain a where a: "validated_ad a = Inr v" by auto
  show ?case
  proof (cases "expected_url E s lg v")
    case (Inl e0)
    with a have "with_image E s lg v = (Inl e0, lg @ image_calls E s [v])"
      by (simp add: with_image_validated)
    with Cons.prems(2) have "e = e0" by simp
    with Inl have "expected_url E s (lg @ image_calls E s (take 0 (v # vs))) ((v # vs) ! 0) = Inl e"
      by (simp add: image_calls_Nil)
    then show ?thesis by blast
  next
    case (Inr u)
    with a have step: "with_image E s lg v = (Inr (published v u), lg @ image_calls E s [v])"
      by (simp add: with_image_validated)
    with Cons.prems(2) have "fst (with_images E s (lg @ image_calls E s [v]) vs) = Inl e"
      by (cases "with_images E s (lg @ image_calls E s [v]) vs")
        (auto split: sum.splits)
    moreover from Cons.prems(1) have "\<forall>w \<in> set vs. \<exists>a. validated_ad a = Inr w" by simp
    ultimately obtain i where i: "i < length vs"
      "expected_url E s ((lg @ image_calls E s [v]) @ image_calls E s (take i vs)) (vs ! i) = Inl e"
      using Cons.IH by blast
    then have "Suc i < length (v # vs)"
      "expected_url E s (lg @ image_calls E s (take (Suc i) (v # vs))) ((v # vs) ! Suc i) = Inl e"
      by (simp_all add: image_calls_Cons [of E s v "take i vs"])
    then show ?thesis by blast
  qed
qed

text \<open>When the loop returns, every call of the synthesizer has returned.\<close>

lemma with_images_returned:
  assumes "\<forall>v \<in> set vs. \<exists>a. validated_ad a = Inr v"
    and "fst (with_images E s lg vs) = Inr res"
  shows "\<forall>i < length vs. \<exists>u.
           expected_url E s (lg @ image_calls E s (take i vs)) (vs ! i) = Inr u"
  using assms
proof (induction vs arbitrary: lg res)
  case Nil
  then show ?case by simp
next
  case (Cons v vs)
  from Cons.prems(1) obtain a where a: "validated_ad a = Inr v" by auto
  show ?case
  proof (cases "expected_url E s lg v")
    case (Inl e0)
    with a have "with_image E s lg v = (Inl e0, lg @ image_calls E s [v])"
      by (simp add: with_image_validated)
    with Cons.prems(2) show ?thesis by simp
  next
    case (Inr u)
    with a have step: "with_image E s lg v = (Inr (published v u), lg @ image_calls E s [v])"
      by (simp add: with_image_validated)
    with Cons.prems(2) obtain res' where
      "fst (with_images E s (lg @ image_calls E s [v]) vs) = Inr res'"
      by (cases "with_images E s (lg @ image_calls E s [v]) vs")
        (auto split: sum.splits)
    moreover from Cons.prems(1) have "\<forall>w \<in> set vs. \<exists>a. validated_ad a = Inr w" by simp
    ultimately have rest: "\<forall>i < length vs. \<exists>u.
        expected_url E s ((lg @ image_calls E s [v]) @ image_calls E s (take i vs)) (vs ! i) = Inr u"
      using Cons.IH by blast
    show ?thesis
    proof (intro allI impI)
      fix i
      assume i: "i < length (v # vs)"
      show "\<exists>u. expected_url E s (lg @ image_calls E s (take i (v # vs))) ((v # vs) ! i) = Inr u"
      proof (cases i)
        case 0
        with Inr show ?thesis by (simp add: image_calls_Nil)
      next
        case (Suc j)
        with i have "j < length vs" by simp
        with rest have "\<exists>u. expected_url E s
            ((lg @ image_calls E s [v]) @ image_calls E s (take j vs)) (vs ! j) = Inr u"
          by blast
        with Suc show ?thesis by (simp add: image_calls_Cons [of E s v "take j vs"])
      qed
    qed
  qed
qed

text \<open>The synthesizer returns when the line of its handler is written.\<close>

lemma expected_url_printed:
  assumes "\<forall>text. print_stdout E text = None"
  shows "\<exists>u. expected_url E s lg v = Inr u"
  using assms
  by (simp add: expected_url_def generate_image_with_dalle_def dalle_handler_def
      split: sum.splits)

lemma without_image_validated:
  assumes "validated_ad a = Inr v"
  shows "without_image v = Inr (published v PNone)"
proof -
  from assms obtain t d c p where
    v: "v = PDict [(str ''titulo'', t), (str ''descricao'', d), (str ''cta'', c),
                   (str ''image_prompt'', p)]"
    using validated_shape by blast
  show ?thesis by (simp add: v without_image_def)
qed

lemma without_images_validated:
  assumes "\<forall>v \<in> set vs. \<exists>a. validated_ad a = Inr v"
  shows "without_images vs = Inr (map (\<lambda>v. published v PNone) vs)"
  using assms
proof (induction vs)
  case Nil
  show ?case by simp
next
  case (Cons v vs)
  from Cons.prems obtain a where "validated_ad a = Inr v" by auto
  then have "without_image v = Inr (published v PNone)" by (rule without_image_validated)
  moreover from Cons have "without_images vs = Inr (map (\<lambda>v. published v PNone) vs)" by simp
  ultimately show ?case by simp
qed

lemma published_validated:
  assumes "validated_ad a = Inr v"
  shows "py_keys (published v u) =
           Inr [str ''titulo'', str ''descricao'', str ''cta'', str ''image_url'']"
    and "py_getitem (published v u) (str ''image_url'') = Inr u"
    and "py_contains (published v u) (str ''image_prompt'') = Inr False"
    and "py_getitem (published v u) (str ''titulo'') = py_getitem v (str ''titulo'')"
    and "py_getitem (published v u) (str ''descricao'') = py_getitem v (str ''descricao'')"
    and "py_getitem (published v u) (str ''cta'') = py_getitem v (str ''cta'')"
proof -
  from assms obtain t d c p where
    v: "v = PDict [(str ''titulo'', t), (str ''descricao'', d), (str ''cta'', c),
                   (str ''image_prompt'', p)]"
    using validated_shape by blast
  show "py_keys (published v u) =
           Inr [str ''titulo'', str ''descricao'', str ''cta'', str ''image_url'']"
    and "py_getitem (published v u) (str ''image_url'') = Inr u"
    and "py_contains (published v u) (str ''image_prompt'') = Inr False"
    and "py_getitem (published v u) (str ''titulo'') = py_getitem v (str ''titulo'')"
    and "py_getitem (published v u) (str ''descricao'') = py_getitem v (str ''descricao'')"
    and "py_getitem (published v u) (str ''cta'') = py_getitem v (str ''cta'')"
    by (simp_all add: v)
qed

lemma copy_returns_validated:
  assumes "generate_ads_with_openai E oferta cliente nicho estilo = (Inr ads, lg)"
  shows "(\<forall>v \<in> set ads. \<exists>a. validated_ad a = Inr v) \<and>
         lg = [ChatCall (user_prompt oferta cliente nicho estilo)]"
proof -
  from assms have "copy_request E (user_prompt oferta cliente nicho estilo) = Inr ads"
    and lg: "lg = [ChatCall (user_prompt oferta cliente nicho estilo)]"
    by (auto simp: generate_ads_with_openai_def split: sum.splits if_splits)
  then obtain js where "validate_and_truncate_ads js = Inr ads"
    by (auto simp: copy_request_def split: sum.splits list.splits option.splits)
  then have "\<forall>v \<in> set ads. \<exists>a. validated_ad a = Inr v"
    using validated_of_member by blast
  with lg show ?thesis by simp
qed

section \<open>The response with and without images\<close>

lemma generate_ads_accepted:
  assumes "accepted E data oferta cliente nicho estilo gi"
  shows "generate_ads E data =
           (Inr (fst (answer E oferta cliente nicho estilo gi)),
            snd (answer E oferta cliente nicho estilo gi))"
  using assms by (auto simp: accepted_def generate_ads_def split: prod.splits)

lemma answer_success:
  assumes "generation E oferta cliente nicho estilo gi = (Inr res, lg)"
  shows "answer E oferta cliente nicho estilo gi = ((success res, 200), lg)"
  using assms by (simp add: answer_def)

lemma generation_without:
  assumes "generate_ads_with_openai E oferta cliente nicho estilo = (Inr ads, lg)"
    and "\<not> truthy gi"
  shows "generation E oferta cliente nicho estilo gi =
           (Inr (map (\<lambda>ad. published ad PNone) ads), lg)"
proof -
  from assms(1) have "\<forall>v \<in> set ads. \<exists>a. validated_ad a = Inr v"
    using copy_returns_validated by blast
  then have "without_images ads = Inr (map (\<lambda>ad. published ad PNone) ads)"
    by (rule without_images_validated)
  with assms show ?thesis by (simp add: generation_def)
qed

lemma generation_with:
  assumes "generate_ads_with_openai E oferta cliente nicho estilo = (Inr ads, lg)"
    and "truthy gi"
    and "\<forall>i < length ads. \<exists>u.
           expected_url E estilo (lg @ image_calls E estilo (take i ads)) (ads ! i) = Inr u"
  shows "\<exists>res. generation E oferta cliente nicho estilo gi =
                  (Inr res, lg @ image_calls E estilo ads) \<and>
           length res = length ads \<and>
           (\<forall>i < length ads. \<exists>u.
              expected_url E estilo (lg @ image_calls E estilo (take i ads)) (ads ! i) = Inr u \<and>
              res ! i = published (ads ! i) u)"
proof -
  from assms(1) have "\<forall>v \<in> set ads. \<exists>a. validated_ad a = Inr v"
    using copy_returns_validated by blast
  from with_images_validated [OF this assms(3)] assms(1,2) show ?thesis
    by (simp add: generation_def)
qed

text \<open>
  C3. When \<open>generate_images\<close> is false and the copy generation succeeds, the response is a
  success whose every object has \<open>image_url\<close> bound to \<open>None\<close> and no \<open>image_prompt\<close>, and
  no call to the image service is made.
\<close>

theorem no_images_when_disabled:
  assumes "accepted E data oferta cliente nicho estilo gi"
    and "\<not> truthy gi"
    and "generate_ads_with_openai E oferta cliente nicho estilo = (Inr ads, lg)"
  shows "generate_ads E data = (Inr (success (map (\<lambda>ad. published ad PNone) ads), 200), lg) \<and>
         \<not> list_ex is_image_call lg \<and>
         (\<forall>ad \<in> set ads.
            py_getitem (published ad PNone) (str ''image_url'') = Inr PNone \<and>
            py_contains (published ad PNone) (str ''image_prompt'') = Inr False)"
proof (intro conjI ballI)
  from generation_without [OF assms(3,2)]
  have "answer E oferta cliente nicho estilo gi =
          ((success (map (\<lambda>ad. published ad PNone) ads), 200), lg)"
    by (rule answer_success)
  with assms(1) show "generate_ads E data =
      (Inr (success (map (\<lambda>ad. published ad PNone) ads), 200), lg)"
    by (simp add: generate_ads_accepted)
next
  from assms(3) have "lg = [ChatCall (user_prompt oferta cliente nicho estilo)]"
    using copy_returns_validated by blast
  then show "\<not> list_ex is_image_call lg" by simp
next
  fix ad
  assume "ad \<in> set ads"
  with assms(3) obtain a where a: "validated_ad a = Inr ad"
    using copy_returns_validated by blast
  then show "py_getitem (published ad PNone) (str ''image_url'') = Inr PNone"
    by (rule published_validated)
  from a show "py_contains (published ad PNone) (str ''image_prompt'') = Inr False"
    by (rule published_validated)
qed

text \<open>
  C4. When \<open>generate_images\<close> is true, the copy generation succeeds and every call of the
  synthesizer returns, the response is a success with one object for each draft, in
  order. The object of a draft carries as \<open>image_url\<close> the result of the synthesizer,
  called with the draft's prompt and the request's style after the calls of the drafts
  before it, when that prompt is true, and \<open>None\<close> otherwise; it has no \<open>image_prompt\<close>. The
  upstream calls are the chat call and then one image call for each draft whose prompt
  is true, in order.
\<close>

theorem images_attached_in_order:
  assumes "accepted E data oferta cliente nicho estilo gi"
    and "truthy gi"
    and "generate_ads_with_openai E oferta cliente nicho estilo = (Inr ads, lg)"
    and "\<forall>i < length ads. \<exists>u.
           expected_url E estilo (lg @ image_calls E estilo (take i ads)) (ads ! i) = Inr u"
  shows "\<exists>res. generate_ads E data = (Inr (success res, 200), lg @ image_calls E estilo ads) \<and>
           length res = length ads \<and>
           (\<forall>i < length ads. \<exists>u.
              expected_url E estilo (lg @ image_calls E estilo (take i ads)) (ads ! i) = Inr u \<and>
              res ! i = published (ads ! i) u \<and>
              py_getitem (res ! i) (str ''image_url'') = Inr u \<and>
              py_contains (res ! i) (str ''image_prompt'') = Inr False)"
proof -
  from generation_with [OF assms(3,2,4)] obtain res where
    gen: "generation E oferta cliente nicho estilo gi = (Inr res, lg @ image_calls E estilo ads)" and
    len: "length res = length ads" and
    each: "\<forall>i < length ads. \<exists>u.
             expected_url E estilo (lg @ image_calls E estilo (take i ads)) (ads ! i) = Inr u \<and>
             res ! i = published (ads ! i) u"
    by blast
  from gen have "answer E oferta cliente nicho estilo gi =
      ((success res, 200), lg @ image_calls E estilo ads)"
    by (rule answer_success)
  with assms(1) have run: "generate_ads E data =
      (Inr (success res, 200), lg @ image_calls E estilo ads)"
    by (simp add: generate_ads_accepted)
  have "\<exists>u. expected_url E estilo (lg @ image_calls E estilo (take i ads)) (ads ! i) = Inr u \<and>
             res ! i = published (ads ! i) u \<and>
             py_getitem (res ! i) (str ''image_url'') = Inr u \<and>
             py_contains (res ! i) (str ''image_prompt'') = Inr False"
    if "i < length ads" for i
  proof -
    from that each obtain u where
      u: "expected_url E estilo (lg @ image_calls E estilo (take i ads)) (ads ! i) = Inr u"
        "res ! i = published (ads ! i) u"
      by blast
    from that assms(3) obtain a where a: "validated_ad a = Inr (ads ! i)"
      using copy_returns_validated nth_mem by blast
    from u published_validated(2,3) [OF a, of u] show ?thesis by simp
  qed
  with run len show ?thesis by blast
qed

section \<open>Properties of the markdown stripping\<close>

lemma strip_prefix:
  "\<exists>ws. dropWhile isspace s = strip s @ ws"
proof -
  have "rev (dropWhile isspace s) =
          takeWhile isspace (rev (dropWhile isspace s)) @ dropWhile isspace (rev (dropWhile isspace s))"
    by simp
  then have "dropWhile isspace s =
          rev (dropWhile isspace (rev (dropWhile isspace s))) @
          rev (takeWhile isspace (rev (dropWhile isspace s)))"
    by (metis rev_append rev_rev_ident)
  then show ?thesis by (auto simp: strip_def)
qed

lemma hd_strip_not_space:
  assumes "strip s \<noteq> []"
  shows "\<not> isspace (hd (strip s))"
proof -
  obtain ws where ws: "dropWhile isspace s = strip s @ ws" using strip_prefix by blast
  with assms have "dropWhile isspace s \<noteq> []" by auto
  then have "\<not> isspace (hd (dropWhile isspace s))" by (rule hd_dropWhile)
  with ws assms show ?thesis by simp
qed

lemma last_strip_not_space:
  assumes "strip s \<noteq> []"
  shows "\<not> isspace (last (strip s))"
proof -
  from assms have ne: "dropWhile isspace (rev (dropWhile isspace s)) \<noteq> []"
    by (simp add: strip_def)
  then have "\<not> isspace (hd (dropWhile isspace (rev (dropWhile isspace s))))"
    by (rule hd_dropWhile)
  with ne show ?thesis by (simp add: strip_def last_rev)
qed

lemma strip_fixed:
  assumes "t \<noteq> []" and "\<not> isspace (hd t)" and "\<not> isspace (last t)"
  shows "strip t = t"
proof -
  from assms(1,2) have a: "dropWhile isspace t = t" by (cases t) auto
  from assms(1,3) have "dropWhile isspace (rev t) = rev t"
    by (cases "rev t") (auto simp: last_rev [symmetric] hd_rev)
  with a show ?thesis by (simp add: strip_def)
qed

lemma strip_strip: "strip (strip s) = strip s"
proof (cases "strip s = []")
  case True
  have "strip [] = []" by (simp add: strip_def)
  with True show ?thesis by simp
next
  case False
  then show ?thesis
    by (intro strip_fixed hd_strip_not_space last_strip_not_space)
qed

lemma hd_of_strip:
  assumes "strip s \<noteq> []"
  shows "s \<noteq> [] \<and> (isspace (hd s) \<or> hd s = hd (strip s))"
proof -
  obtain ws where ws: "dropWhile isspace s = strip s @ ws" using strip_prefix by blast
  with assms have ne: "s \<noteq> []" by auto
  show ?thesis
  proof (cases "isspace (hd s)")
    case True
    with ne show ?thesis by simp
  next
    case False
    with ne have "dropWhile isspace s = s" by (cases s) auto
    with ws assms have "hd s = hd (strip s)" by (metis hd_append2)
    with ne show ?thesis by simp
  qed
qed

lemma startswith_append: "startswith (p @ s) p"
  by (simp add: startswith_def)

lemma startswith_hd:
  assumes "startswith s p" and "p \<noteq> []"
  shows "s \<noteq> [] \<and> hd s = hd p"
proof -
  from assms have "take (length p) s = p" by (simp add: startswith_def)
  with assms(2) show ?thesis by (cases s; cases p) auto
qed

lemma endswith_append: "endswith (s @ p) p"
  by (simp add: endswith_def)

lemma endswith_last:
  assumes "endswith s p" and "p \<noteq> []"
  shows "s \<noteq> [] \<and> last s = last p"
proof -
  from assms have d: "drop (length s - length p) s = p" by (simp add: endswith_def)
  with assms(2) have ne: "s \<noteq> []" by auto
  have "last (drop (length s - length p) s) = last s"
    using d assms(2) by (intro last_drop) (metis drop_eq_Nil not_le)
  with d ne show ?thesis by simp
qed

lemma backtick_not_space: "\<not> isspace 96"
  by (simp add: isspace_def)

lemma fence_json: "str ''```json'' = str ''```'' @ str ''json''"
  by (simp add: str_def)

lemma hd_fence: "hd (str ''```'') = 96" "last (str ''```'') = 96" "length (str ''```'') = 3"
  "hd (str ''```json'') = 96" "length (str ''```json'') = 7" "str ''```'' \<noteq> []"
  "str ''```json'' \<noteq> []" "hd (str ''json'') = 106" "str ''json'' \<noteq> []"
  by (simp_all add: str_def)

text \<open>The markers are removed around a payload that starts with white space or \<open>[\<close>.\<close>

lemma strip_markdown_fenced:
  assumes "strip content = fence @ payload @ str ''```''"
    and "fence = str ''```json'' \<or> fence = str ''```''"
    and "payload \<noteq> []" and "isspace (hd payload) \<or> hd payload = 91"
  shows "strip_markdown content = strip payload"
proof -
  have not_tick: "hd payload \<noteq> 96" using assms(4) backtick_not_space by auto
  have not_j: "hd payload \<noteq> 106" using assms(4) by (auto simp: isspace_def)
  have no3: "\<not> startswith (payload @ str ''```'') (str ''```'')"
  proof
    assume "startswith (payload @ str ''```'') (str ''```'')"
    then have "hd (payload @ str ''```'') = hd (str ''```'')"
      using startswith_hd hd_fence(6) by blast
    with assms(3) not_tick show False by (simp add: hd_fence)
  qed
  have nojson: "\<not> startswith (payload @ str ''```'') (str ''json'')"
  proof
    assume "startswith (payload @ str ''```'') (str ''json'')"
    then have "hd (payload @ str ''```'') = hd (str ''json'')"
      using startswith_hd hd_fence(9) by blast
    with assms(3) not_j show False by (simp add: hd_fence)
  qed
  from assms(2) show ?thesis
  proof
    assume f: "fence = str ''```json''"
    have a: "startswith (strip content) (str ''```json'')"
      by (simp add: assms(1) f startswith_append)
    have b: "drop 7 (strip content) = payload @ str ''```''"
      by (simp add: assms(1) f hd_fence)
    show ?thesis
      by (simp add: strip_markdown_def Let_def a b no3 endswith_append hd_fence)
  next
    assume f: "fence = str ''```''"
    have "\<not> startswith (str ''```'' @ payload @ str ''```'') (str ''```'' @ str ''json'')"
      using nojson by (simp add: startswith_def hd_fence)
    then have a: "\<not> startswith (strip content) (str ''```json'')"
      by (simp add: assms(1) f fence_json)
    have b: "startswith (strip content) (str ''```'')"
      by (simp add: assms(1) f startswith_append)
    have c: "drop 3 (strip content) = payload @ str ''```''"
      by (simp add: assms(1) f hd_fence)
    show ?thesis
      by (simp add: strip_markdown_def Let_def a b c no3 endswith_append hd_fence)
  qed
qed

lemma strip_markdown_plain:
  assumes "strip payload \<noteq> []" and "hd (strip payload) = 91" and "last (strip payload) = 93"
  shows "strip_markdown payload = strip payload"
proof -
  have a: "\<not> startswith (strip payload) (str ''```json'')"
    using startswith_hd [of "strip payload" "str ''```json''"] assms(2) by (auto simp: hd_fence)
  have b: "\<not> startswith (strip payload) (str ''```'')"
    using startswith_hd [of "strip payload" "str ''```''"] assms(2) by (auto simp: hd_fence)
  have c: "\<not> endswith (strip payload) (str ''```'')"
    using endswith_last [of "strip payload" "str ''```''"] assms(3) by (auto simp: hd_fence)
  show ?thesis by (simp add: strip_markdown_def Let_def a b c strip_strip)
qed

lemma strip_padded:
  assumes "b \<noteq> []" and "\<not> isspace (hd b)" and "\<not> isspace (last b)"
    and "\<forall>c \<in> set w1. isspace c" and "\<forall>c \<in> set w2. isspace c"
  shows "strip (w1 @ b @ w2) = b"
proof -
  from assms(1,2) have "dropWhile isspace b = b" by (cases b) auto
  with assms(1,2,4) have a: "dropWhile isspace (w1 @ b @ w2) = b @ w2"
    by (cases b) (auto simp: dropWhile_append)
  from assms(1,3) have "dropWhile isspace (rev b) = rev b"
    by (cases "rev b") (auto simp: last_rev [symmetric] hd_rev)
  with assms(1,3,5) have "dropWhile isspace (rev w2 @ rev b) = rev b"
    by (auto simp: dropWhile_append)
  with a show ?thesis by (simp add: strip_def)
qed

text \<open>
  C6. When the answer of the chat service is a payload between a leading \<open>```json\<close> or
  \<open>```\<close> and a trailing \<open>```\<close>, and the payload is an array text (it starts with \<open>[\<close> and ends
  with \<open>]\<close> once trimmed), the text given to \<open>json.loads\<close> is the trimmed payload, as it is
  for the payload alone, and the copy generator returns the same in both cases.
\<close>

theorem fenced_answer_parsed_as_unfenced:
  assumes "strip content = fence @ payload @ str ''```''"
    and "fence = str ''```json'' \<or> fence = str ''```''"
    and "strip payload \<noteq> []" and "hd (strip payload) = 91" and "last (strip payload) = 93"
  shows "strip_markdown content = strip payload \<and>
         strip_markdown payload = strip payload \<and>
         generate_ads_with_openai (E\<lparr>chat_create := \<lambda>prompt. Inr [Some content]\<rparr>)
             oferta cliente nicho estilo =
           generate_ads_with_openai (E\<lparr>chat_create := \<lambda>prompt. Inr [Some payload]\<rparr>)
             oferta cliente nicho estilo"
proof -
  from assms(3,4) have "payload \<noteq> []" and "isspace (hd payload) \<or> hd payload = 91"
    using hd_of_strip [of payload] by auto
  with assms(1,2) have fenced: "strip_markdown content = strip payload"
    by (rule strip_markdown_fenced)
  from assms(3,4,5) have plain: "strip_markdown payload = strip payload"
    by (rule strip_markdown_plain)
  have "copy_request (E\<lparr>chat_create := \<lambda>prompt. Inr [Some content]\<rparr>) p =
        copy_request (E\<lparr>chat_create := \<lambda>prompt. Inr [Some payload]\<rparr>) p" for p
    by (simp add: copy_request_def fenced plain)
  moreover have "str_exn (E\<lparr>chat_create := f\<rparr>) e = str_exn E e" for f e
    by (cases e) simp_all
  ultimately have "generate_ads_with_openai (E\<lparr>chat_create := \<lambda>prompt. Inr [Some content]\<rparr>)
             oferta cliente nicho estilo =
           generate_ads_with_openai (E\<lparr>chat_create := \<lambda>prompt. Inr [Some payload]\<rparr>)
             oferta cliente nicho estilo"
    by (simp add: generate_ads_with_openai_def split: sum.splits)
  with fenced plain show ?thesis by simp
qed

lemma sample_payload_ends: "sample_payload \<noteq> []" "hd sample_payload = 91" "last sample_payload = 93"
  by (simp_all add: sample_payload_def str_def)

lemma sample_payload_padded: "strip ([10] @ sample_payload @ [10]) = sample_payload"
  by (rule strip_padded) (simp_all add: sample_payload_ends isspace_def)

lemma sample_content_strip: "strip sample_content = sample_content"
  by (rule strip_fixed) (simp_all add: sample_content_def isspace_def str_def)

lemma sample_markdown: "strip_markdown sample_content = sample_payload"
proof -
  have "strip sample_content = str ''```json'' @ ([10] @ sample_payload @ [10]) @ str ''```''"
    by (simp add: sample_content_strip) (simp add: sample_content_def)
  then have "strip_markdown sample_content = strip ([10] @ sample_payload @ [10])"
    by (rule strip_markdown_fenced) (simp_all add: isspace_def)
  then show ?thesis by (simp only: sample_payload_padded)
qed

lemma sample_copy:
  "generate_ads_with_openai sample_env oferta cliente nicho estilo =
     (Inr sample_validated, [ChatCall (user_prompt oferta cliente nicho estilo)])"
  by (simp add: generate_ads_with_openai_def copy_request_def sample_env_def sample_markdown
      sample_loads_def sample_drafts_def validate_and_truncate_ads_def validated_ad_dict
      sample_validated_def length_str)

theorem fenced_answer_parsed_as_unfenced_witness:
  "strip sample_content = str ''```json'' @ ([10] @ sample_payload @ [10]) @ str ''```'' \<and>
   hd (strip ([10] @ sample_payload @ [10])) = 91 \<and>
   last (strip ([10] @ sample_payload @ [10])) = 93 \<and>
   strip_markdown sample_content = sample_payload \<and>
   generate_ads_with_openai (sample_env\<lparr>chat_create := \<lambda>prompt. Inr [Some sample_content]\<rparr>)
       [] [] [] [] =
     generate_ads_with_openai
       (sample_env\<lparr>chat_create := \<lambda>prompt. Inr [Some ([10] @ sample_payload @ [10])]\<rparr>)
       [] [] [] []"
proof -
  have a: "strip sample_content = str ''```json'' @ ([10] @ sample_payload @ [10]) @ str ''```''"
    by (simp add: sample_content_strip) (simp add: sample_content_def)
  have b: "str ''```json'' = str ''```json'' \<or> str ''```json'' = str ''```''" by simp
  have c: "strip ([10] @ sample_payload @ [10]) \<noteq> []"
    unfolding sample_payload_padded by (simp add: sample_payload_ends)
  have d: "hd (strip ([10] @ sample_payload @ [10])) = 91"
    by (simp only: sample_payload_padded sample_payload_ends)
  have e: "last (strip ([10] @ sample_payload @ [10])) = 93"
    by (simp only: sample_payload_padded sample_payload_ends)
  from fenced_answer_parsed_as_unfenced [OF a b c d e, of sample_env "[]" "[]" "[]" "[]"] a d e
  show ?thesis by (simp only: sample_payload_padded)
qed

section \<open>The sample request, run\<close>

lemma str_Nil_iff: "str s = [] \<longleftrightarrow> s = []"
  by (simp add: str_def)

lemma strip_sample_oferta: "strip (str '' 50% off '') = str ''50% off''"
proof -
  have "strip ([32] @ str ''50% off'' @ [32]) = str ''50% off''"
    by (rule strip_padded) (simp_all add: str_def isspace_def)
  then show ?thesis by (simp add: str_def)
qed

lemma strip_sample_words: "strip (str ''Loja'') = str ''Loja''" "strip (str ''Moda'') = str ''Moda''"
  "strip [] = []"
  by (simp_all add: strip_def str_def isspace_def)

lemma sample_accepted:
  "accepted sample_env sample_request (str ''50% off'') (str ''Loja'') (str ''Moda'') [] (PBool True)"
  by (simp add: accepted_def sample_env_def sample_request_def request_fields_def
      stripped_field_def strip_sample_oferta strip_sample_words str_Nil_iff)

lemma sample_accepted_no_images:
  "accepted sample_env sample_request_no_images (str ''50% off'') (str ''Loja'') (str ''Moda'') []
     (PBool False)"
  by (simp add: accepted_def sample_env_def sample_request_no_images_def request_fields_def
      stripped_field_def strip_sample_oferta strip_sample_words str_Nil_iff)

theorem no_images_when_disabled_witness:
  "accepted sample_env sample_request_no_images (str ''50% off'') (str ''Loja'') (str ''Moda'') []
     (PBool False) \<and>
   \<not> truthy (PBool False) \<and>
   generate_ads sample_env sample_request_no_images =
     (Inr (success (map (\<lambda>ad. published ad PNone) sample_validated), 200),
      [ChatCall (user_prompt (str ''50% off'') (str ''Loja'') (str ''Moda'') [])]) \<and>
   py_getitem (published (sample_validated ! 0) PNone) (str ''image_url'') = Inr PNone"
proof -
  have f: "\<not> truthy (PBool False)" by simp
  have m: "sample_validated ! 0 \<in> set sample_validated" by (simp add: sample_validated_def)
  from no_images_when_disabled [OF sample_accepted_no_images f sample_copy] m
    sample_accepted_no_images f
  show ?thesis by blast
qed

lemma sample_prints: "\<forall>text. print_stdout sample_env text = None"
  by (simp add: sample_env_def)

theorem images_attached_in_order_witness:
  "accepted sample_env sample_request (str ''50% off'') (str ''Loja'') (str ''Moda'') [] (PBool True) \<and>
   truthy (PBool True) \<and>
   (\<exists>u. expected_url sample_env []
      ([ChatCall (user_prompt (str ''50% off'') (str ''Loja'') (str ''Moda'') [])] @
       image_calls sample_env [] (take 0 sample_validated)) (sample_validated ! 0) = Inr u) \<and>
   (\<exists>res. generate_ads sample_env sample_request =
      (Inr (success res, 200),
       [ChatCall (user_prompt (str ''50% off'') (str ''Loja'') (str ''Moda'') [])] @
       image_calls sample_env [] sample_validated) \<and>
      length res = 3 \<and>
      py_contains (res ! 2) (str ''image_prompt'') = Inr False)"
proof -
  have t: "truthy (PBool True)" by simp
  have n: "length sample_validated = 3" by (simp add: sample_validated_def)
  have ret: "\<forall>i < length sample_validated. \<exists>u.
      expected_url sample_env []
        ([ChatCall (user_prompt (str ''50% off'') (str ''Loja'') (str ''Moda'') [])] @
         image_calls sample_env [] (take i sample_validated)) (sample_validated ! i) = Inr u"
    using expected_url_printed [OF sample_prints] by blast
  from images_attached_in_order [OF sample_accepted t sample_copy ret] obtain res where
    run: "generate_ads sample_env sample_request =
      (Inr (success res, 200),
       [ChatCall (user_prompt (str ''50% off'') (str ''Loja'') (str ''Moda'') [])] @
       image_calls sample_env [] sample_validated)" and
    len: "length res = length sample_validated" and
    each: "\<forall>i < length sample_validated. \<exists>u.
       expected_url sample_env []
         ([ChatCall (user_prompt (str ''50% off'') (str ''Loja'') (str ''Moda'') [])] @
          image_calls sample_env [] (take i sample_validated)) (sample_validated ! i) = Inr u \<and>
       res ! i = published (sample_validated ! i) u \<and>
       py_getitem (res ! i) (str ''image_url'') = Inr u \<and>
       py_contains (res ! i) (str ''image_prompt'') = Inr False"
    by blast
  have "2 < length sample_validated" by (simp add: n)
  with each have "py_contains (res ! 2) (str ''image_prompt'') = Inr False" by blast
  with run len n have "\<exists>res. generate_ads sample_env sample_request =
      (Inr (success res, 200),
       [ChatCall (user_prompt (str ''50% off'') (str ''Loja'') (str ''Moda'') [])] @
       image_calls sample_env [] sample_validated) \<and>
      length res = 3 \<and>
      py_contains (res ! 2) (str ''image_prompt'') = Inr False"
    by (intro exI [of _ res]) simp
  moreover have "0 < length sample_validated" by (simp add: n)
  with ret have "\<exists>u. expected_url sample_env []
      ([ChatCall (user_prompt (str ''50% off'') (str ''Loja'') (str ''Moda'') [])] @
       image_calls sample_env [] (take 0 sample_validated)) (sample_validated ! 0) = Inr u"
    by blast
  ultimately show ?thesis using sample_accepted t by blast
qed

section \<open>Shape of the results\<close>

lemma validated_keys:
  assumes "validated_ad a = Inr v"
  shows "py_keys v = Inr [str ''titulo'', str ''descricao'', str ''cta'', str ''image_prompt'']"
proof -
  from assms obtain t d c p where
    "v = PDict [(str ''titulo'', t), (str ''descricao'', d), (str ''cta'', c),
                (str ''image_prompt'', p)]"
    using validated_shape by blast
  then show ?thesis by simp
qed

lemma ok_response:
  assumes "fst (generate_ads E data) = Inr (body, 200)"
  shows "\<exists>oferta cliente nicho estilo gi res lg.
           generation E oferta cliente nicho estilo gi = (Inr res, lg) \<and> body = success res"
proof -
  from assms obtain oferta cliente nicho estilo gi lg where
    ans: "answer E oferta cliente nicho estilo gi = ((body, 200), lg)"
    by (auto simp: generate_ads_def split: if_splits sum.splits prod.splits)
  show ?thesis
  proof (cases "generation E oferta cliente nicho estilo gi")
    case (Pair r lg')
    with ans obtain res where "r = Inr res" "body = success res"
      by (auto simp: answer_def split: sum.splits if_splits)
    with Pair show ?thesis by blast
  qed
qed

lemma generation_published:
  assumes "generation E oferta cliente nicho estilo gi = (Inr res, lg)" and "r \<in> set res"
  shows "\<exists>a v u. validated_ad a = Inr v \<and> r = published v u"
proof -
  from assms(1) obtain ads lg0 where
    copy: "generate_ads_with_openai E oferta cliente nicho estilo = (Inr ads, lg0)"
    by (cases "generate_ads_with_openai E oferta cliente nicho estilo")
      (auto simp: generation_def split: sum.splits)
  then have val: "\<forall>v \<in> set ads. \<exists>a. validated_ad a = Inr v"
    using copy_returns_validated by blast
  show ?thesis
  proof (cases "truthy gi")
    case True
    with assms(1) copy have loop: "with_images E estilo lg0 ads = (Inr res, lg)"
      by (simp add: generation_def)
    then have "fst (with_images E estilo lg0 ads) = Inr res" by simp
    with val have "\<forall>i < length ads. \<exists>u.
        expected_url E estilo (lg0 @ image_calls E estilo (take i ads)) (ads ! i) = Inr u"
      by (rule with_images_returned)
    from with_images_validated [OF val this] loop have
      len: "length res = length ads" and
      each: "\<forall>i < length ads. \<exists>u. res ! i = published (ads ! i) u"
      by auto
    from assms(2) obtain i where i: "i < length res" "r = res ! i"
      by (auto simp: in_set_conv_nth)
    with len each obtain u where "r = published (ads ! i) u" by auto
    moreover from i len val obtain a where "validated_ad a = Inr (ads ! i)"
      by (metis nth_mem)
    ultimately show ?thesis by blast
  next
    case False
    from generation_without [OF copy False] assms(1) have
      "res = map (\<lambda>ad. published ad PNone) ads"
      by simp
    with assms(2) obtain v where "v \<in> set ads" "r = published v PNone" by auto
    with val show ?thesis by blast
  qed
qed

text \<open>
  C10. For a list of objects that have the shape of a draft, \<open>validate_and_truncate_ads\<close>
  returns; and whenever it returns for a list, the result has as many objects, the object
  at each place is the validated form of the input at that place, and its keys are the
  four keys. On such a result the loop that attaches the images returns when every call
  of the synthesizer returns, and an exception of the loop is the exception of a call of
  the synthesizer, so that the deletion of \<open>image_prompt\<close> never fails; the loop of the other
  branch returns always. Every object of a response with status 200 has the keys
  \<open>titulo\<close>, \<open>descricao\<close>, \<open>cta\<close> and \<open>image_url\<close>.
\<close>

theorem validated_list_shape:
  "((\<forall>ad \<in> set items. ad_object ad) \<longrightarrow>
      (\<exists>out. validate_and_truncate_ads (PList items) = Inr out)) \<and>
   (validate_and_truncate_ads (PList items) = Inr out \<longrightarrow>
      length out = length items \<and>
      (\<forall>i < length items.
         validated_ad (items ! i) = Inr (out ! i) \<and>
         py_keys (out ! i) =
           Inr [str ''titulo'', str ''descricao'', str ''cta'', str ''image_prompt''])) \<and>
   (validate_and_truncate_ads ads = Inr vs \<longrightarrow>
      ((\<forall>i < length vs. \<exists>u.
          expected_url E estilo (lg @ image_calls E estilo (take i vs)) (vs ! i) = Inr u) \<longrightarrow>
       (\<exists>res. fst (with_images E estilo lg vs) = Inr res \<and> length res = length vs)) \<and>
      (\<forall>e. fst (with_images E estilo lg vs) = Inl e \<longrightarrow>
         (\<exists>i < length vs.
            expected_url E estilo (lg @ image_calls E estilo (take i vs)) (vs ! i) = Inl e)) \<and>
      (\<exists>res. without_images vs = Inr res \<and> length res = length vs)) \<and>
   (fst (generate_ads E data) = Inr (body, 200) \<longrightarrow>
      (\<exists>res. body = success res \<and>
         (\<forall>r \<in> set res.
            py_keys r = Inr [str ''titulo'', str ''descricao'', str ''cta'', str ''image_url''])))"
proof (intro conjI impI allI)
  assume "\<forall>ad \<in> set items. ad_object ad"
  then show "\<exists>out. validate_and_truncate_ads (PList items) = Inr out"
    by (rule ad_objects_validated)
next
  assume run: "validate_and_truncate_ads (PList items) = Inr out"
  then show "length out = length items" by (simp add: validated_nth)
  fix i
  assume "i < length items"
  with run have v: "validated_ad (items ! i) = Inr (out ! i)" by (simp add: validated_nth)
  then show "validated_ad (items ! i) = Inr (out ! i)" .
  from v show "py_keys (out ! i) =
      Inr [str ''titulo'', str ''descricao'', str ''cta'', str ''image_prompt'']"
    by (rule validated_keys)
next
  assume "validate_and_truncate_ads ads = Inr vs"
    and ret: "\<forall>i < length vs. \<exists>u.
      expected_url E estilo (lg @ image_calls E estilo (take i vs)) (vs ! i) = Inr u"
  then have "\<forall>v \<in> set vs. \<exists>a. validated_ad a = Inr v"
    using validated_of_member by blast
  from with_images_validated [OF this ret]
  show "\<exists>res. fst (with_images E estilo lg vs) = Inr res \<and> length res = length vs"
    by auto
next
  fix e
  assume "validate_and_truncate_ads ads = Inr vs"
    and "fst (with_images E estilo lg vs) = Inl e"
  then show "\<exists>i < length vs.
      expected_url E estilo (lg @ image_calls E estilo (take i vs)) (vs ! i) = Inl e"
    using validated_of_member with_images_raises by blast
next
  assume "validate_and_truncate_ads ads = Inr vs"
  then have "\<forall>v \<in> set vs. \<exists>a. validated_ad a = Inr v"
    using validated_of_member by blast
  then have "without_images vs = Inr (map (\<lambda>v. published v PNone) vs)"
    by (rule without_images_validated)
  then show "\<exists>res. without_images vs = Inr res \<and> length res = length vs" by simp
next
  assume "fst (generate_ads E data) = Inr (body, 200)"
  then obtain oferta cliente nicho estilo gi res lg' where
    gen: "generation E oferta cliente nicho estilo gi = (Inr res, lg')" and
    body: "body = success res"
    using ok_response by blast
  have "py_keys r = Inr [str ''titulo'', str ''descricao'', str ''cta'', str ''image_url'']"
    if "r \<in> set res" for r
  proof -
    from generation_published [OF gen that] obtain a v u where
      "validated_ad a = Inr v" "r = published v u"
      by blast
    then show ?thesis by (simp add: published_validated(1))
  qed
  with body show "\<exists>res. body = success res \<and>
         (\<forall>r \<in> set res.
            py_keys r = Inr [str ''titulo'', str ''descricao'', str ''cta'', str ''image_url''])"
    by blast
qed

lemma sample_no_images_run:
  "generate_ads sample_env sample_request_no_images =
     (Inr (success (map (\<lambda>ad. published ad PNone) sample_validated), 200),
      [ChatCall (user_prompt (str ''50% off'') (str ''Loja'') (str ''Moda'') [])])"
proof -
  have "\<not> truthy (PBool False)" by simp
  with sample_copy have "generation sample_env (str ''50% off'') (str ''Loja'') (str ''Moda'') []
      (PBool False) =
    (Inr (map (\<lambda>ad. published ad PNone) sample_validated),
     [ChatCall (user_prompt (str ''50% off'') (str ''Loja'') (str ''Moda'') [])])"
    by (rule generation_without)
  then have "answer sample_env (str ''50% off'') (str ''Loja'') (str ''Moda'') [] (PBool False) =
    ((success (map (\<lambda>ad. published ad PNone) sample_validated), 200),
     [ChatCall (user_prompt (str ''50% off'') (str ''Loja'') (str ''Moda'') [])])"
    by (rule answer_success)
  with sample_accepted_no_images show ?thesis by (simp add: generate_ads_accepted)
qed

theorem validated_list_shape_witness:
  "list_all ad_object short_ads \<and>
   validate_and_truncate_ads (PList short_ads) = Inr short_ads \<and>
   py_keys (short_ads ! 0) = Inr [str ''titulo'', str ''descricao'', str ''cta'', str ''image_prompt''] \<and>
   (\<exists>u. expected_url sample_env [] ([] @ image_calls sample_env [] (take 0 short_ads))
          (short_ads ! 0) = Inr u) \<and>
   (\<exists>res. fst (with_images sample_env [] [] short_ads) = Inr res \<and> length res = length short_ads) \<and>
   (\<exists>res. without_images short_ads = Inr res \<and> length res = length short_ads) \<and>
   fst (generate_ads sample_env sample_request_no_images) =
     Inr (success (map (\<lambda>ad. published ad PNone) sample_validated), 200) \<and>
   list_all (\<lambda>r. py_keys r = Inr [str ''titulo'', str ''descricao'', str ''cta'', str ''image_url''])
     (map (\<lambda>ad. published ad PNone) sample_validated)"
proof -
  note shape = validated_list_shape [where items = short_ads and out = short_ads
      and ads = "PList short_ads" and vs = short_ads and E = sample_env and estilo = "[]"
      and lg = "[]" and data = sample_request_no_images
      and body = "success (map (\<lambda>ad. published ad PNone) sample_validated)"]
  have objs: "\<forall>ad \<in> set short_ads. ad_object ad"
    by (simp add: short_ads_def text_or_absent_def)
  have run: "validate_and_truncate_ads (PList short_ads) = Inr short_ads"
    by (simp add: validate_and_truncate_ads_def short_ads_def validated_ad_dict length_str)
  have ok: "fst (generate_ads sample_env sample_request_no_images) =
      Inr (success (map (\<lambda>ad. published ad PNone) sample_validated), 200)"
    by (simp add: sample_no_images_run)
  have i: "0 < length short_ads" by (simp add: short_ads_def)
  have ret: "\<forall>i < length short_ads. \<exists>u.
      expected_url sample_env [] ([] @ image_calls sample_env [] (take i short_ads))
        (short_ads ! i) = Inr u"
    using expected_url_printed [OF sample_prints] by blast
  with i have first: "\<exists>u. expected_url sample_env []
      ([] @ image_calls sample_env [] (take 0 short_ads)) (short_ads ! 0) = Inr u"
    by blast
  from shape run i have keys: "py_keys (short_ads ! 0) =
      Inr [str ''titulo'', str ''descricao'', str ''cta'', str ''image_prompt'']"
    by blast
  from shape run ret have loop: "\<exists>res. fst (with_images sample_env [] [] short_ads) = Inr res \<and>
      length res = length short_ads"
    by blast
  from shape run have other: "\<exists>res. without_images short_ads = Inr res \<and>
      length res = length short_ads"
    by blast
  from shape ok obtain res where
    "success (map (\<lambda>ad. published ad PNone) sample_validated) = success res"
    "\<forall>r \<in> set res.
       py_keys r = Inr [str ''titulo'', str ''descricao'', str ''cta'', str ''image_url'']"
    by blast
  then have "list_all
      (\<lambda>r. py_keys r = Inr [str ''titulo'', str ''descricao'', str ''cta'', str ''image_url''])
      (map (\<lambda>ad. published ad PNone) sample_validated)"
    by (simp add: success_def list_all_iff)
  with objs run keys first loop other ok show ?thesis by (simp add: list_all_iff)
qed

section \<open>Failures of the copy generation\<close>

lemma sliced_field_raises:
  assumes "sliced_field ad k n = Inl e"
  shows "e = AttributeError \<or> e = TypeError"
  using assms
  by (cases ad) (auto simp: sliced_field_def elim: py_slice_to.elims split: option.splits)

lemma validated_ad_raises:
  assumes "validated_ad ad = Inl e"
  shows "e = AttributeError \<or> e = TypeError"
  using assms
  by (auto simp: validated_ad_def limited_field_simps split: sum.splits dest: sliced_field_raises)

lemma validate_loop_raises:
  assumes "validate_loop items acc = Inl e"
  shows "e = AttributeError \<or> e = TypeError"
  using assms
proof (induction items arbitrary: acc)
  case Nil
  then show ?case by simp
next
  case (Cons ad items)
  then show ?case
    by (cases "validated_ad ad") (auto dest: validated_ad_raises)
qed

lemma validate_raises:
  assumes "validate_and_truncate_ads v = Inl e"
  shows "e = AttributeError \<or> e = TypeError"
proof (cases "py_iter v")
  case (Inl e')
  with assms have "e = e'" by (simp add: validate_and_truncate_ads_def)
  with Inl show ?thesis by (cases v) auto
next
  case (Inr items)
  with assms show ?thesis
    by (auto simp: validate_and_truncate_ads_def dest: validate_loop_raises)
qed

lemma copy_failure_answer:
  assumes "accepted E data oferta cliente nicho estilo gi"
    and "copy_request E (user_prompt oferta cliente nicho estilo) = Inl e"
  shows "generate_ads E data =
     (Inr (if is_JSONDecodeError e
           then (failure (str ''Erro ao processar resposta da IA: '' @ str_exn E e), 422)
           else (failure (str ''Erro na comunica'' @ [231, 227] @ str ''o com a API: '' @
                          str_exn E e), 500)),
      [ChatCall (user_prompt oferta cliente nicho estilo)])"
  using assms
  by (simp add: generate_ads_accepted answer_def generation_def generate_ads_with_openai_def)

text \<open>
  C7, as amended. For a request that passes the checks and an answer of the chat service
  with a content: when \<open>json.loads\<close> rejects the text it is given with a \<open>JSONDecodeError\<close>,
  the response has status 422 and the error text is the prefix for a response that could
  not be processed followed by the detail of the parse error; when \<open>json.loads\<close> accepts the
  text and the validation raises on the value, the response has status 500 and the error
  text is the prefix for a communication failure followed by the text of the exception.
\<close>

theorem parse_failure_answers_422:
  assumes "accepted E data oferta cliente nicho estilo gi"
    and "chat_create E (user_prompt oferta cliente nicho estilo) = Inr (Some content # rest)"
  shows "(json_loads E (strip_markdown content) = Inl (JSONDecodeError detail) \<longrightarrow>
            generate_ads E data =
              (Inr (failure (str ''Erro ao processar resposta da IA: '' @ detail), 422),
               [ChatCall (user_prompt oferta cliente nicho estilo)])) \<and>
         (json_loads E (strip_markdown content) = Inr v \<and>
          validate_and_truncate_ads v = Inl e \<longrightarrow>
            generate_ads E data =
              (Inr (failure (str ''Erro na comunica'' @ [231, 227] @ str ''o com a API: '' @
                             exn_text E e), 500),
               [ChatCall (user_prompt oferta cliente nicho estilo)]))"
proof (intro conjI impI)
  assume "json_loads E (strip_markdown content) = Inl (JSONDecodeError detail)"
  with assms(2) have "copy_request E (user_prompt oferta cliente nicho estilo) =
      Inl (JSONDecodeError detail)"
    by (simp add: copy_request_def)
  from copy_failure_answer [OF assms(1) this]
  show "generate_ads E data =
      (Inr (failure (str ''Erro ao processar resposta da IA: '' @ detail), 422),
       [ChatCall (user_prompt oferta cliente nicho estilo)])"
    by simp
next
  assume h: "json_loads E (strip_markdown content) = Inr v \<and>
    validate_and_truncate_ads v = Inl e"
  then have e: "e = AttributeError \<or> e = TypeError" using validate_raises by blast
  from h assms(2) have "copy_request E (user_prompt oferta cliente nicho estilo) = Inl e"
    by (simp add: copy_request_def)
  from copy_failure_answer [OF assms(1) this] e
  show "generate_ads E data =
      (Inr (failure (str ''Erro na comunica'' @ [231, 227] @ str ''o com a API: '' @
                     exn_text E e), 500),
       [ChatCall (user_prompt oferta cliente nicho estilo)])"
    by auto
qed

lemma sample_accepted_any_env:
  assumes "api_key E = Some (str ''sk-test'')"
  shows "accepted E sample_request (str ''50% off'') (str ''Loja'') (str ''Moda'') [] (PBool True)"
  using assms
  by (simp add: accepted_def sample_request_def request_fields_def
      stripped_field_def strip_sample_oferta strip_sample_words str_Nil_iff)

lemma prose_markdown: "strip_markdown (str ''Desculpe'') = str ''Desculpe''"
  by (simp add: strip_markdown_def strip_def startswith_def endswith_def str_def isspace_def)

lemma wrapped_markdown: "strip_markdown wrapped_payload = wrapped_payload"
  by (simp add: strip_markdown_def strip_def startswith_def endswith_def wrapped_payload_def
      str_def isspace_def)

theorem parse_failure_answers_422_witness:
  "accepted prose_env sample_request (str ''50% off'') (str ''Loja'') (str ''Moda'') [] (PBool True) \<and>
   chat_create prose_env (user_prompt (str ''50% off'') (str ''Loja'') (str ''Moda'') []) =
     Inr (Some (str ''Desculpe'') # []) \<and>
   json_loads prose_env (strip_markdown (str ''Desculpe'')) =
     Inl (JSONDecodeError (str ''Expecting value: line 1 column 1 (char 0)'')) \<and>
   generate_ads prose_env sample_request =
     (Inr (failure (str ''Erro ao processar resposta da IA: '' @
                    str ''Expecting value: line 1 column 1 (char 0)''), 422),
      [ChatCall (user_prompt (str ''50% off'') (str ''Loja'') (str ''Moda'') [])])"
proof -
  have a: "accepted prose_env sample_request (str ''50% off'') (str ''Loja'') (str ''Moda'') []
      (PBool True)"
    by (rule sample_accepted_any_env) (simp add: prose_env_def)
  have c: "chat_create prose_env (user_prompt (str ''50% off'') (str ''Loja'') (str ''Moda'') []) =
      Inr (Some (str ''Desculpe'') # [])"
    by (simp add: prose_env_def)
  have j: "json_loads prose_env (strip_markdown (str ''Desculpe'')) =
      Inl (JSONDecodeError (str ''Expecting value: line 1 column 1 (char 0)''))"
    by (simp add: prose_markdown) (simp add: prose_env_def wrapped_loads_def wrapped_payload_def)
  from parse_failure_answers_422 [OF a c] j a c show ?thesis by blast
qed

text \<open>
  C7 as stated fails: the answer \<open>{"ads": []}\<close> is valid JSON that is not an array of
  objects, and the response has status 500, not 422.
\<close>

theorem structurally_invalid_answers_500:
  "json_loads wrapped_env (strip_markdown wrapped_payload) = Inr (PDict [(str ''ads'', PList [])]) \<and>
   generate_ads wrapped_env sample_request =
     (Inr (failure (str ''Erro na comunica'' @ [231, 227] @ str ''o com a API: '' @
                    [39] @ str ''str'' @ [39] @ str '' object has no attribute '' @
                    [39] @ str ''get'' @ [39]), 500),
      [ChatCall (user_prompt (str ''50% off'') (str ''Loja'') (str ''Moda'') [])])"
proof -
  have a: "accepted wrapped_env sample_request (str ''50% off'') (str ''Loja'') (str ''Moda'') []
      (PBool True)"
    by (rule sample_accepted_any_env) (simp add: wrapped_env_def)
  have j: "json_loads wrapped_env (strip_markdown wrapped_payload) =
      Inr (PDict [(str ''ads'', PList [])])"
    by (simp add: wrapped_markdown) (simp add: wrapped_env_def wrapped_loads_def)
  have v: "validate_and_truncate_ads (PDict [(str ''ads'', PList [])]) = Inl AttributeError"
    by (simp add: validate_and_truncate_ads_def validated_ad_def limited_field_def)
  have "copy_request wrapped_env (user_prompt (str ''50% off'') (str ''Loja'') (str ''Moda'') []) =
      Inl AttributeError"
    using j v by (simp add: copy_request_def wrapped_env_def)
  from copy_failure_answer [OF a this] j show ?thesis
    by (simp add: wrapped_env_def)
qed

section \<open>Rejected requests\<close>

lemma strip_Nil: "strip [] = []"
  by (simp add: strip_def)

lemma stripped_field_text:
  assumes "text_or_absent kvs k"
  shows "\<exists>t. stripped_field (PDict kvs) k = Inr t \<and> (t = [] \<longleftrightarrow> missing_or_blank kvs k)"
  using assms
  by (auto simp: text_or_absent_def missing_or_blank_def stripped_field_def strip_Nil
      split: option.splits pyval.splits)

text \<open>
  C8, as amended. With the key configured, for a body that is a non-empty object whose
  \<open>oferta\<close>, \<open>cliente\<close>, \<open>nicho\<close> and \<open>estilo_visual\<close>, where present, are texts: when one of
  \<open>oferta\<close>, \<open>cliente\<close>, \<open>nicho\<close> is missing or empty once trimmed, the response has status
  400 and the message of the first such field in that order, and no upstream call is made.
  For the empty object the response has status 400 and the message that no data was sent,
  and no upstream call is made either.
\<close>

theorem missing_field_answers_400:
  assumes "api_key E \<noteq> None" and "api_key E \<noteq> Some []"
    and "text_or_absent kvs (str ''oferta'')" and "text_or_absent kvs (str ''cliente'')"
    and "text_or_absent kvs (str ''nicho'')" and "text_or_absent kvs (str ''estilo_visual'')"
    and "missing_or_blank kvs (str ''oferta'') \<or> missing_or_blank kvs (str ''cliente'') \<or>
         missing_or_blank kvs (str ''nicho'')"
  shows "(kvs \<noteq> [] \<longrightarrow>
            generate_ads E (PDict kvs) =
              (Inr (failure (if missing_or_blank kvs (str ''oferta'') then msg_oferta
                             else if missing_or_blank kvs (str ''cliente'') then msg_cliente
                             else msg_nicho), 400), [])) \<and>
         (kvs = [] \<longrightarrow> generate_ads E (PDict kvs) = (Inr (failure msg_no_data, 400), []))"
proof (intro conjI impI)
  assume ne: "kvs \<noteq> []"
  from stripped_field_text [OF assms(3)] obtain oferta where
    o: "stripped_field (PDict kvs) (str ''oferta'') = Inr oferta"
      "oferta = [] \<longleftrightarrow> missing_or_blank kvs (str ''oferta'')" by blast
  from stripped_field_text [OF assms(4)] obtain cliente where
    c: "stripped_field (PDict kvs) (str ''cliente'') = Inr cliente"
      "cliente = [] \<longleftrightarrow> missing_or_blank kvs (str ''cliente'')" by blast
  from stripped_field_text [OF assms(5)] obtain nicho where
    n: "stripped_field (PDict kvs) (str ''nicho'') = Inr nicho"
      "nicho = [] \<longleftrightarrow> missing_or_blank kvs (str ''nicho'')" by blast
  from stripped_field_text [OF assms(6)] obtain estilo where
    s: "stripped_field (PDict kvs) (str ''estilo_visual'') = Inr estilo" by blast
  have "request_fields (PDict kvs) =
      Inr (oferta, cliente, nicho, estilo,
           case map_of kvs (str ''generate_images'') of None \<Rightarrow> PBool True | Some v \<Rightarrow> v)"
    by (simp add: request_fields_def o(1) c(1) n(1) s)
  with assms(1,2,7) ne o(2) c(2) n(2)
  show "generate_ads E (PDict kvs) =
      (Inr (failure (if missing_or_blank kvs (str ''oferta'') then msg_oferta
                     else if missing_or_blank kvs (str ''cliente'') then msg_cliente
                     else msg_nicho), 400), [])"
    by (auto simp: generate_ads_def)
next
  assume "kvs = []"
  with assms(1,2) show "generate_ads E (PDict kvs) = (Inr (failure msg_no_data, 400), [])"
    by (auto simp: generate_ads_def)
qed

theorem missing_field_answers_400_witness:
  "api_key sample_env \<noteq> None \<and> api_key sample_env \<noteq> Some [] \<and>
   text_or_absent no_cliente_request (str ''oferta'') \<and>
   text_or_absent no_cliente_request (str ''cliente'') \<and>
   text_or_absent no_cliente_request (str ''nicho'') \<and>
   text_or_absent no_cliente_request (str ''estilo_visual'') \<and>
   missing_or_blank no_cliente_request (str ''cliente'') \<and>
   generate_ads sample_env (PDict no_cliente_request) = (Inr (failure msg_cliente, 400), [])"
proof -
  have k: "api_key sample_env \<noteq> None" "api_key sample_env \<noteq> Some []"
    by (simp_all add: sample_env_def str_Nil_iff)
  have t: "text_or_absent no_cliente_request (str ''oferta'')"
    "text_or_absent no_cliente_request (str ''cliente'')"
    "text_or_absent no_cliente_request (str ''nicho'')"
    "text_or_absent no_cliente_request (str ''estilo_visual'')"
    by (simp_all add: text_or_absent_def no_cliente_request_def)
  have m: "missing_or_blank no_cliente_request (str ''cliente'')"
    by (simp add: missing_or_blank_def no_cliente_request_def)
  have o: "\<not> missing_or_blank no_cliente_request (str ''oferta'')"
    by (simp add: missing_or_blank_def no_cliente_request_def strip_sample_oferta str_Nil_iff)
  have ne: "no_cliente_request \<noteq> []" by (simp add: no_cliente_request_def)
  from m have d: "missing_or_blank no_cliente_request (str ''oferta'') \<or>
      missing_or_blank no_cliente_request (str ''cliente'') \<or>
      missing_or_blank no_cliente_request (str ''nicho'')" by simp
  from missing_field_answers_400 [OF k t d] ne m o
  have "generate_ads sample_env (PDict no_cliente_request) = (Inr (failure msg_cliente, 400), [])"
    by simp
  with k t m show ?thesis by simp
qed

text \<open>
  C8 as stated fails: in the empty object \<open>cliente\<close> is missing, and the message of the
  response is the one for a request without data, not the one of a field.
\<close>

theorem empty_object_answers_no_data:
  "missing_or_blank [] (str ''cliente'') \<and>
   generate_ads sample_env (PDict []) = (Inr (failure msg_no_data, 400), []) \<and>
   msg_no_data \<noteq> msg_oferta \<and> msg_no_data \<noteq> msg_cliente \<and> msg_no_data \<noteq> msg_nicho"
  by (simp add: missing_or_blank_def generate_ads_def sample_env_def str_Nil_iff
      msg_no_data_def msg_oferta_def msg_cliente_def msg_nicho_def str_def)

section \<open>The line printed by the handler of the synthesizer\<close>

text \<open>An exception of the block is turned into \<open>None\<close> when the handler's line is written.\<close>

lemma dalle_caught_when_printed:
  assumes "dalle_request E lg prompt style = Inl e"
    and "print_stdout E (str ''Erro ao gerar imagem: '' @ str_exn E e) = None"
  shows "fst (generate_image_with_dalle E lg prompt style) = Inr PNone"
  using assms by (simp add: generate_image_with_dalle_def dalle_handler_def)

lemma garbled_copy:
  "generate_ads_with_openai garbled_env oferta cliente nicho estilo =
     (Inr sample_validated, [ChatCall (user_prompt oferta cliente nicho estilo)])"
  by (simp add: generate_ads_with_openai_def copy_request_def garbled_env_def sample_env_def
      sample_markdown sample_loads_def sample_drafts_def validate_and_truncate_ads_def
      validated_ad_dict sample_validated_def length_str)

lemma garbled_line:
  "print_stdout garbled_env (str ''Erro ao gerar imagem: '' @ str ''bad '' @ [55357]) =
     Some (UnicodeEncodeError garbled_msg)"
  by (simp add: garbled_env_def garbled_print_def str_def)

lemma garbled_dalle:
  "generate_image_with_dalle garbled_env lg prompt style =
     (Inl (UnicodeEncodeError garbled_msg), lg @ [ImageCall (full_prompt garbled_env prompt style)])"
proof -
  have "dalle_request garbled_env lg prompt style = Inl (OtherError (str ''bad '' @ [55357]))"
    by (simp add: dalle_request_def garbled_env_def garbled_images_def)
  moreover have "dalle_handler garbled_env (OtherError (str ''bad '' @ [55357])) =
      Inl (UnicodeEncodeError garbled_msg)"
    using garbled_line by (simp add: dalle_handler_def)
  ultimately show ?thesis by (simp add: generate_image_with_dalle_def)
qed

lemma garbled_loop:
  "with_images garbled_env [] lg sample_validated =
     (Inl (UnicodeEncodeError garbled_msg),
      lg @ [ImageCall (full_prompt garbled_env (PStr (str ''sun'')) [])])"
  by (simp add: sample_validated_def with_image_def garbled_dalle str_Nil_iff)

text \<open>
  C5. The claim holds of the \<open>try\<close> block and fails at the handler: when the line that the
  handler prints cannot be written, the exception of \<open>print\<close> leaves
  \<open>generate_image_with_dalle\<close>, the loop stops at the first draft and, the exception being
  a \<open>ValueError\<close>, the request is answered with status 422 and no draft.
\<close>

theorem print_failure_leaves_synthesizer:
  "dalle_request garbled_env [] (PStr (str ''sun'')) [] = Inl (OtherError (str ''bad '' @ [55357])) \<and>
   fst (generate_image_with_dalle garbled_env [] (PStr (str ''sun'')) []) =
     Inl (UnicodeEncodeError garbled_msg) \<and>
   generate_ads garbled_env sample_request =
     (Inr (failure garbled_msg, 422),
      [ChatCall (user_prompt (str ''50% off'') (str ''Loja'') (str ''Moda'') []),
       ImageCall (full_prompt garbled_env (PStr (str ''sun'')) [])])"
proof -
  have a: "accepted garbled_env sample_request (str ''50% off'') (str ''Loja'') (str ''Moda'') []
      (PBool True)"
    by (rule sample_accepted_any_env) (simp add: garbled_env_def sample_env_def)
  have r: "dalle_request garbled_env [] (PStr (str ''sun'')) [] =
      Inl (OtherError (str ''bad '' @ [55357]))"
    by (simp add: dalle_request_def garbled_env_def garbled_images_def)
  have g: "generation garbled_env (str ''50% off'') (str ''Loja'') (str ''Moda'') [] (PBool True) =
      (Inl (UnicodeEncodeError garbled_msg),
       [ChatCall (user_prompt (str ''50% off'') (str ''Loja'') (str ''Moda'') []),
        ImageCall (full_prompt garbled_env (PStr (str ''sun'')) [])])"
    by (simp add: generation_def garbled_copy garbled_loop)
  then have "answer garbled_env (str ''50% off'') (str ''Loja'') (str ''Moda'') [] (PBool True) =
      ((failure garbled_msg, 422),
       [ChatCall (user_prompt (str ''50% off'') (str ''Loja'') (str ''Moda'') []),
        ImageCall (full_prompt garbled_env (PStr (str ''sun'')) [])])"
    by (simp add: answer_def)
  with a have "generate_ads garbled_env sample_request =
     (Inr (failure garbled_msg, 422),
      [ChatCall (user_prompt (str ''50% off'') (str ''Loja'') (str ''Moda'') []),
       ImageCall (full_prompt garbled_env (PStr (str ''sun'')) [])])"
    by (simp add: generate_ads_accepted)
  with r show ?thesis by (simp add: garbled_dalle)
qed

end
